theory Spec2Isabelle
  imports Main "HOL-Library.Multiset"
begin

section \<open>Cards (src/src/card.py)\<close>

datatype suit = SPADES | HEARTS | DIAMONDS | CLUBS

datatype rank =
  TWO | THREE | FOUR | FIVE | SIX | SEVEN | EIGHT | NINE | TEN | JACK | QUEEN | KING | ACE

text \<open>The members of the two enums in declaration order, as iterating the enum yields them.\<close>

definition all_suits :: "suit list" where
  "all_suits = [SPADES, HEARTS, DIAMONDS, CLUBS]"

definition all_ranks :: "rank list" where
  "all_ranks =
     [TWO, THREE, FOUR, FIVE, SIX, SEVEN, EIGHT, NINE, TEN, JACK, QUEEN, KING, ACE]"

text \<open>\<open>Rank.numeric_value\<close>: the second component of the enum member's tuple.\<close>

fun numeric_value :: "rank \<Rightarrow> int" where
  "numeric_value TWO = 2"
| "numeric_value THREE = 3"
| "numeric_value FOUR = 4"
| "numeric_value FIVE = 5"
| "numeric_value SIX = 6"
| "numeric_value SEVEN = 7"
| "numeric_value EIGHT = 8"
| "numeric_value NINE = 9"
| "numeric_value TEN = 10"
| "numeric_value JACK = 10"
| "numeric_value QUEEN = 10"
| "numeric_value KING = 10"
| "numeric_value ACE = 11"

text \<open>The dataclass \<open>Card\<close>; equality is equality of rank and suit, as \<open>__eq__\<close> has it.\<close>

datatype card = Card (rank: rank) (suit: suit)

definition card_value :: "card \<Rightarrow> int" where
  "card_value c = numeric_value (rank c)"

definition is_ace :: "card \<Rightarrow> bool" where
  "is_ace c = (rank c = ACE)"

definition is_ten_value :: "card \<Rightarrow> bool" where
  "is_ten_value c = (card_value c = 10)"

section \<open>Errors\<close>

text \<open>
  The Python exceptions the modelled code can raise. A function that can raise returns
  \<open>error + 'a\<close>, with \<open>Inl\<close> for the exception.
\<close>

datatype error = TypeError | AttributeError | IndexError | ValueError | OverflowError

section \<open>Hands (src/src/hand.py)\<close>

text \<open>
  A hand holds a list of slots. \<open>Game\<close> appends the result of \<open>Deck.deal()\<close> without
  looking at it, and that result is \<open>None\<close> on an empty deck, so a slot is a
  \<open>card option\<close>: reading an attribute of a \<open>None\<close> slot raises \<open>AttributeError\<close>.
\<close>

record hand =
  cards :: "card option list"
  is_split :: bool
  is_doubled :: bool
  is_surrendered :: bool

text \<open>\<open>Hand(cards)\<close>, the constructor, on a list of cards; \<open>Hand()\<close> is \<open>Hand []\<close>.\<close>

definition Hand :: "card list \<Rightarrow> hand" where
  "Hand cs = \<lparr>cards = map Some cs, is_split = False, is_doubled = False, is_surrendered = False\<rparr>"

definition add_card :: "hand \<Rightarrow> card option \<Rightarrow> hand" where
  "add_card h c = h\<lparr>cards := cards h @ [c]\<rparr>"

text \<open>
  The \<open>for\<close> loop of \<open>Hand.value\<close>: \<open>v\<close> is \<open>value\<close>, \<open>n\<close> is \<open>num_aces\<close>, every Ace adding
  its nominal 11.
\<close>

fun sum_cards :: "card option list \<Rightarrow> int \<Rightarrow> int \<Rightarrow> error + (int \<times> int)" where
  "sum_cards [] v n = Inr (v, n)"
| "sum_cards (None # cs) v n = Inl AttributeError"
| "sum_cards (Some c # cs) v n =
     sum_cards cs (v + card_value c) (if is_ace c then n + 1 else n)"

text \<open>The \<open>while\<close> loop of \<open>Hand.value\<close>: one Ace goes from 11 to 1 in each round.\<close>

function demote :: "int \<Rightarrow> int \<Rightarrow> int" where
  "demote v n = (if v > 21 \<and> n > 0 then demote (v - 10) (n - 1) else v)"
  by pat_completeness auto
termination
  by (relation "measure (\<lambda>(v, n). nat n)") auto

declare demote.simps [simp del]

definition "value" :: "hand \<Rightarrow> error + int" where
  "value h = (case sum_cards (cards h) 0 0 of
                Inl e \<Rightarrow> Inl e
              | Inr (v, n) \<Rightarrow> Inr (demote v n))"

text \<open>
  Python's \<open>any(p(card) for card in cards)\<close>: it stops at the first card satisfying \<open>p\<close>,
  and raises at a \<open>None\<close> slot met before that.
\<close>

fun py_any :: "(card \<Rightarrow> bool) \<Rightarrow> card option list \<Rightarrow> error + bool" where
  "py_any p [] = Inr False"
| "py_any p (None # cs) = Inl AttributeError"
| "py_any p (Some c # cs) = (if p c then Inr True else py_any p cs)"

text \<open>\<open>sum(card.value for card in cards)\<close>.\<close>

fun py_sum :: "card option list \<Rightarrow> error + int" where
  "py_sum [] = Inr 0"
| "py_sum (None # cs) = Inl AttributeError"
| "py_sum (Some c # cs) = (case py_sum cs of Inl e \<Rightarrow> Inl e | Inr s \<Rightarrow> Inr (card_value c + s))"

definition is_blackjack :: "hand \<Rightarrow> error + bool" where
  "is_blackjack h =
     (if length (cards h) \<noteq> 2 then Inr False
      else case py_any is_ace (cards h) of
             Inl e \<Rightarrow> Inl e
           | Inr has_ace \<Rightarrow>
               (case py_any is_ten_value (cards h) of
                  Inl e \<Rightarrow> Inl e
                | Inr has_ten \<Rightarrow> Inr (has_ace \<and> has_ten)))"

definition is_bust :: "hand \<Rightarrow> error + bool" where
  "is_bust h = (case value h of Inl e \<Rightarrow> Inl e | Inr v \<Rightarrow> Inr (v > 21))"

definition is_soft :: "hand \<Rightarrow> error + bool" where
  "is_soft h =
     (case py_any is_ace (cards h) of
        Inl e \<Rightarrow> Inl e
      | Inr has_ace \<Rightarrow>
          if \<not> has_ace then Inr False
          else (case py_sum (cards h) of Inl e \<Rightarrow> Inl e | Inr s \<Rightarrow> Inr (s \<le> 21)))"

definition is_pair :: "hand \<Rightarrow> error + bool" where
  "is_pair h =
     (case cards h of
        [a, b] \<Rightarrow> (case a of
                     None \<Rightarrow> Inl AttributeError
                   | Some x \<Rightarrow> (case b of
                                  None \<Rightarrow> Inl AttributeError
                                | Some y \<Rightarrow> Inr (rank x = rank y)))
      | _ \<Rightarrow> Inr False)"

text \<open>\<open>hand.cards[0]\<close>, an \<open>IndexError\<close> on the empty hand.\<close>

definition first_slot :: "hand \<Rightarrow> error + card option" where
  "first_slot h = (case cards h of [] \<Rightarrow> Inl IndexError | c # _ \<Rightarrow> Inr c)"

subsection \<open>Reference quantities for hand valuation\<close>

text \<open>The sum of all card values with every Ace counted as 11, and the number of Aces.\<close>

definition naive_sum :: "card list \<Rightarrow> int" where
  "naive_sum cs = sum_list (map card_value cs)"

definition num_aces :: "card list \<Rightarrow> nat" where
  "num_aces cs = length (filter is_ace cs)"

section \<open>Strategies (src/src/strategies.py)\<close>

datatype action = HIT | STAND | DOUBLE_DOWN | SPLIT | SURRENDER | INSURANCE

text \<open>The two counters of a \<open>CardCountingStrategy\<close> object.\<close>

record card_counting =
  running_count :: int
  cards_seen :: int

text \<open>
  The five strategy classes. \<open>MartingaleStrategy\<close> carries \<open>_consecutive_losses\<close>,
  \<open>CardCountingStrategy\<close> its counters; both hold a \<open>BasicStrategy\<close> to which \<open>decide\<close>
  delegates.
\<close>

datatype strategy =
  BasicStrategy
| ConservativeStrategy
| AggressiveStrategy
| MartingaleStrategy int
| CardCountingStrategy card_counting

text \<open>\<open>dealer_card.value\<close>, where the dealer's card may be an empty slot.\<close>

definition slot_value :: "card option \<Rightarrow> error + int" where
  "slot_value d = (case d of None \<Rightarrow> Inl AttributeError | Some c \<Rightarrow> Inr (card_value c))"

text \<open>\<open>hand.cards[0]\<close> as a card, for \<open>hand.cards[0].rank\<close> and \<open>hand.cards[0].is_ace\<close>.\<close>

definition first_card :: "hand \<Rightarrow> error + card" where
  "first_card h =
     (case first_slot h of
        Inl e \<Rightarrow> Inl e
      | Inr None \<Rightarrow> Inl AttributeError
      | Inr (Some c) \<Rightarrow> Inr c)"

text \<open>
  The pair block of \<open>BasicStrategy.decide\<close> for a pair of rank \<open>r\<close> against a dealer
  value \<open>dv\<close>: true where the block returns \<open>SPLIT\<close>, false where it falls through.
\<close>

definition basic_pair_splits :: "rank \<Rightarrow> int \<Rightarrow> bool" where
  "basic_pair_splits r dv =
     (if r \<in> {ACE, EIGHT} then True
      else if r \<in> {TEN, JACK, QUEEN, KING, FIVE} then False
      else if r = NINE then (if dv \<in> {7, 10, 11} then False else True)
      else if r \<in> {TWO, THREE, SEVEN} then (2 \<le> dv \<and> dv \<le> 7)
      else if r \<in> {FOUR} then dv \<in> {5, 6}
      else if r = SIX then (2 \<le> dv \<and> dv \<le> 6)
      else False)"

text \<open>The soft-hand block of \<open>BasicStrategy.decide\<close>.\<close>

definition basic_soft :: "int \<Rightarrow> int \<Rightarrow> bool \<Rightarrow> action" where
  "basic_soft pv dv can_double =
     (if pv \<ge> 19 then STAND
      else if pv = 18 then
        (if dv \<le> 8 then
           (if \<not> can_double then STAND
            else if dv \<in> {3, 4, 5, 6} then DOUBLE_DOWN else STAND)
         else HIT)
      else if pv = 17 then
        (if can_double \<and> dv \<in> {3, 4, 5, 6} then DOUBLE_DOWN else HIT)
      else if pv \<in> {15, 16} then
        (if can_double \<and> dv \<in> {4, 5, 6} then DOUBLE_DOWN else HIT)
      else if pv \<in> {13, 14} then
        (if can_double \<and> dv \<in> {5, 6} then DOUBLE_DOWN else HIT)
      else HIT)"

text \<open>The hard-hand block of \<open>BasicStrategy.decide\<close>.\<close>

definition basic_hard :: "int \<Rightarrow> int \<Rightarrow> bool \<Rightarrow> action" where
  "basic_hard pv dv can_double =
     (if pv \<ge> 17 then STAND
      else if pv \<ge> 13 then (if dv \<le> 6 then STAND else HIT)
      else if pv = 12 then (if 4 \<le> dv \<and> dv \<le> 6 then STAND else HIT)
      else if pv = 11 then (if can_double then DOUBLE_DOWN else HIT)
      else if pv = 10 then (if can_double \<and> dv \<le> 9 then DOUBLE_DOWN else HIT)
      else if pv = 9 then (if can_double \<and> 3 \<le> dv \<and> dv \<le> 6 then DOUBLE_DOWN else HIT)
      else HIT)"

text \<open>
  \<open>BasicStrategy.decide\<close>. The hand's value and the dealer's value are read first; the
  first card of the hand is read only inside \<open>if hand.is_pair and can_split\<close>.
\<close>

definition basic_decide ::
  "hand \<Rightarrow> card option \<Rightarrow> bool \<Rightarrow> bool \<Rightarrow> bool \<Rightarrow> error + action" where
  "basic_decide h dealer_card can_double can_split can_surrender =
     (case value h of Inl e \<Rightarrow> Inl e | Inr player_value \<Rightarrow>
      case slot_value dealer_card of Inl e \<Rightarrow> Inl e | Inr dealer_value \<Rightarrow>
      case is_pair h of Inl e \<Rightarrow> Inl e | Inr pair \<Rightarrow>
      case (if pair \<and> can_split
            then (case first_card h of
                    Inl e \<Rightarrow> Inl e
                  | Inr c \<Rightarrow> Inr (basic_pair_splits (rank c) dealer_value))
            else Inr False) of Inl e \<Rightarrow> Inl e | Inr splits \<Rightarrow>
      if splits then Inr SPLIT
      else (case is_soft h of Inl e \<Rightarrow> Inl e | Inr soft \<Rightarrow>
            if soft then Inr (basic_soft player_value dealer_value can_double)
            else Inr (basic_hard player_value dealer_value can_double)))"

text \<open>\<open>ConservativeStrategy.decide\<close>; it never reads the dealer's card.\<close>

definition conservative_decide ::
  "hand \<Rightarrow> card option \<Rightarrow> bool \<Rightarrow> bool \<Rightarrow> bool \<Rightarrow> error + action" where
  "conservative_decide h dealer_card can_double can_split can_surrender =
     (case value h of Inl e \<Rightarrow> Inl e | Inr player_value \<Rightarrow>
      case is_pair h of Inl e \<Rightarrow> Inl e | Inr pair \<Rightarrow>
      case (if pair \<and> can_split
            then (case first_card h of Inl e \<Rightarrow> Inl e | Inr c \<Rightarrow> Inr (is_ace c))
            else Inr False) of Inl e \<Rightarrow> Inl e | Inr splits \<Rightarrow>
      if splits then Inr SPLIT
      else if player_value \<ge> 12 then Inr STAND
      else Inr HIT)"

text \<open>\<open>AggressiveStrategy.decide\<close>.\<close>

definition aggressive_decide ::
  "hand \<Rightarrow> card option \<Rightarrow> bool \<Rightarrow> bool \<Rightarrow> bool \<Rightarrow> error + action" where
  "aggressive_decide h dealer_card can_double can_split can_surrender =
     (case value h of Inl e \<Rightarrow> Inl e | Inr player_value \<Rightarrow>
      case slot_value dealer_card of Inl e \<Rightarrow> Inl e | Inr dealer_value \<Rightarrow>
      case is_pair h of Inl e \<Rightarrow> Inl e | Inr pair \<Rightarrow>
      case (if pair \<and> can_split
            then (case first_card h of
                    Inl e \<Rightarrow> Inl e
                  | Inr c \<Rightarrow> Inr (rank c \<notin> {TEN, JACK, QUEEN, KING, FIVE}))
            else Inr False) of Inl e \<Rightarrow> Inl e | Inr splits \<Rightarrow>
      if splits then Inr SPLIT
      else if can_double \<and> 9 \<le> player_value \<and> player_value \<le> 12 then Inr DOUBLE_DOWN
      else if player_value < 18 then Inr HIT
      else Inr STAND)"

text \<open>\<open>Strategy.decide\<close>, dispatched on the class of the strategy object.\<close>

fun decide ::
  "strategy \<Rightarrow> hand \<Rightarrow> card option \<Rightarrow> bool \<Rightarrow> bool \<Rightarrow> bool \<Rightarrow> error + action" where
  "decide BasicStrategy h d cd cs csu = basic_decide h d cd cs csu"
| "decide ConservativeStrategy h d cd cs csu = conservative_decide h d cd cs csu"
| "decide AggressiveStrategy h d cd cs csu = aggressive_decide h d cd cs csu"
| "decide (MartingaleStrategy losses) h d cd cs csu = basic_decide h d cd cs csu"
| "decide (CardCountingStrategy counters) h d cd cs csu = basic_decide h d cd cs csu"

text \<open>\<open>CardCountingStrategy.update_count\<close> on a card.\<close>

definition update_count :: "card_counting \<Rightarrow> card \<Rightarrow> card_counting" where
  "update_count s c =
     (let s1 = s\<lparr>cards_seen := cards_seen s + 1\<rparr>;
          v = card_value c
      in if 2 \<le> v \<and> v \<le> 6 then s1\<lparr>running_count := running_count s1 + 1\<rparr>
         else if v \<ge> 10 \<or> is_ace c then s1\<lparr>running_count := running_count s1 - 1\<rparr>
         else s1)"

text \<open>The counters after \<open>__init__\<close> and after \<open>reset\<close>.\<close>

definition fresh_count :: card_counting where
  "fresh_count = \<lparr>running_count = 0, cards_seen = 0\<rparr>"

definition reset_count :: "card_counting \<Rightarrow> card_counting" where
  "reset_count s = s\<lparr>running_count := 0, cards_seen := 0\<rparr>"

text \<open>A caller observing the cards of a list one after the other.\<close>

fun observe :: "card_counting \<Rightarrow> card list \<Rightarrow> card_counting" where
  "observe s [] = s"
| "observe s (c # cs) = observe (update_count s c) cs"

text \<open>The Hi-Lo table as the claim has it, by rank.\<close>

definition hi_lo :: "rank \<Rightarrow> int" where
  "hi_lo r =
     (if r \<in> {TWO, THREE, FOUR, FIVE, SIX} then 1
      else if r \<in> {SEVEN, EIGHT, NINE} then 0
      else - 1)"

text \<open>The pair test of \<open>Hand.is_pair\<close> on a list of cards.\<close>

definition same_rank_pair :: "card list \<Rightarrow> bool" where
  "same_rank_pair cs = (case cs of [a, b] \<Rightarrow> rank a = rank b | _ \<Rightarrow> False)"

section \<open>The shoe (src/src/deck.py)\<close>

text \<open>
  A \<open>Deck\<close> object: \<open>deck_cards\<close> is \<open>_cards\<close>, the remaining pool, dealt from its end;
  \<open>dealt_cards\<close> is \<open>_dealt_cards\<close>.
\<close>

record deck =
  num_decks :: int
  deck_cards :: "card list"
  dealt_cards :: "card list"

text \<open>One pass of the two inner loops of \<open>reset\<close>: for each suit, for each rank.\<close>

definition one_deck :: "card list" where
  "one_deck = concat (map (\<lambda>s. map (\<lambda>r. Card r s) all_ranks) all_suits)"

definition reset :: "deck \<Rightarrow> deck" where
  "reset d = d\<lparr>deck_cards := concat (replicate (nat (num_decks d)) one_deck),
               dealt_cards := []\<rparr>"

text \<open>
  \<open>shuffle\<close> reorders the pool in place by \<open>random.shuffle\<close>; the reordering drawn is the
  parameter \<open>perm\<close>.
\<close>

definition shuffle :: "(card list \<Rightarrow> card list) \<Rightarrow> deck \<Rightarrow> deck" where
  "shuffle perm d = d\<lparr>deck_cards := perm (deck_cards d)\<rparr>"

text \<open>\<open>Deck.__init__\<close>.\<close>

definition Deck :: "int \<Rightarrow> bool \<Rightarrow> (card list \<Rightarrow> card list) \<Rightarrow> error + deck" where
  "Deck n shuffle_on_init perm =
     (if n < 1 then Inl ValueError
      else let d = reset \<lparr>num_decks = n, deck_cards = [], dealt_cards = []\<rparr>
           in Inr (if shuffle_on_init then shuffle perm d else d))"

text \<open>\<open>Deck.deal\<close>: \<open>list.pop()\<close> takes the last element of the pool.\<close>

definition deal :: "deck \<Rightarrow> card option \<times> deck" where
  "deal d =
     (if deck_cards d = [] then (None, d)
      else let card = last (deck_cards d)
           in (Some card, d\<lparr>deck_cards := butlast (deck_cards d),
                             dealt_cards := dealt_cards d @ [card]\<rparr>))"

definition remaining :: "deck \<Rightarrow> int" where
  "remaining d = int (length (deck_cards d))"

definition dealt_count :: "deck \<Rightarrow> int" where
  "dealt_count d = int (length (dealt_cards d))"

definition total_cards :: "deck \<Rightarrow> int" where
  "total_cards d = num_decks d * 52"

text \<open>The counts of the shoe add up to its size.\<close>

definition conserved :: "deck \<Rightarrow> bool" where
  "conserved d = (remaining d + dealt_count d = total_cards d)"

text \<open>The shoe after \<open>k\<close> successive calls of \<open>deal\<close>.\<close>

fun deals :: "nat \<Rightarrow> deck \<Rightarrow> deck" where
  "deals 0 d = d"
| "deals (Suc k) d = deals k (snd (deal d))"

section \<open>The player (src/src/player.py)\<close>

text \<open>
  A \<open>Player\<close> object. The fields \<open>name\<close> and \<open>hands\<close> are left out: the round logic
  reads neither, and \<open>hands\<close> only holds the object that \<open>hand\<close> refers to.
\<close>

record player =
  bankroll :: int
  initial_bankroll :: int
  strategy :: strategy
  hand :: hand
  current_bet :: int

definition Player :: "int \<Rightarrow> strategy \<Rightarrow> player" where
  "Player b s =
     \<lparr>bankroll = b, initial_bankroll = b, strategy = s, hand = Hand [], current_bet = 0\<rparr>"

definition place_bet :: "player \<Rightarrow> int \<Rightarrow> bool \<times> player" where
  "place_bet p amount =
     (if amount > bankroll p then (False, p)
      else (True, p\<lparr>bankroll := bankroll p - amount,
                     current_bet := current_bet p + amount\<rparr>))"

definition win :: "player \<Rightarrow> int \<Rightarrow> player" where
  "win p amount = p\<lparr>bankroll := bankroll p + amount\<rparr>"

definition clear_hands :: "player \<Rightarrow> player" where
  "clear_hands p = p\<lparr>hand := Hand [], current_bet := 0\<rparr>"

section \<open>The round controller (src/src/game.py)\<close>

text \<open>A \<open>Game\<close> object; \<open>dealer\<close> is the hand of its \<open>Dealer\<close>, that object's only field.\<close>

record game =
  player :: player
  dealer :: hand
  deck :: deck
  bet :: int
  game_num_decks :: int
  round_active :: bool
  insurance_offered :: bool

definition Game ::
  "player \<Rightarrow> int \<Rightarrow> int \<Rightarrow> (card list \<Rightarrow> card list) \<Rightarrow> error + game" where
  "Game p b n perm =
     (case Deck n True perm of
        Inl e \<Rightarrow> Inl e
      | Inr d \<Rightarrow> Inr \<lparr>player = p, dealer = Hand [], deck = d, bet = b, game_num_decks = n,
                      round_active = False, insurance_offered = False\<rparr>)"

text \<open>\<open>self.player.add_card(self.deck.deal())\<close> and \<open>self.dealer.add_card(self.deck.deal())\<close>.\<close>

definition deal_to_player :: "game \<Rightarrow> game" where
  "deal_to_player g =
     (case deal (deck g) of
        (c, d) \<Rightarrow> g\<lparr>player := (player g)\<lparr>hand := add_card (hand (player g)) c\<rparr>, deck := d\<rparr>)"

definition deal_to_dealer :: "game \<Rightarrow> game" where
  "deal_to_dealer g =
     (case deal (deck g) of (c, d) \<Rightarrow> g\<lparr>dealer := add_card (dealer g) c, deck := d\<rparr>)"

text \<open>
  The expression \<open>hand.is_blackjack()\<close> of \<open>game.py\<close>. In \<open>hand.py\<close>, \<open>is_blackjack\<close> is
  declared under \<open>@property\<close>, so \<open>hand.is_blackjack\<close> already is the boolean, and the
  call parentheses then call that boolean: Python raises
  \<open>TypeError: 'bool' object is not callable\<close>. An exception raised while the property
  is computed comes first.
\<close>

definition call_is_blackjack :: "hand \<Rightarrow> error + bool" where
  "call_is_blackjack h = (case is_blackjack h of Inl e \<Rightarrow> Inl e | Inr b \<Rightarrow> Inl TypeError)"

text \<open>\<open>int.bit_length\<close> of a magnitude.\<close>

fun bit_length :: "nat \<Rightarrow> nat" where
  "bit_length n = (if n = 0 then 0 else Suc (bit_length (n div 2)))"

declare bit_length.simps [simp del]

text \<open>
  Rounding a magnitude to 53 significant bits, ties to even: what the conversion of an
  integer to a double does, and what the correctly rounded product of two doubles does to
  the exact product.
\<close>

definition round53 :: "nat \<Rightarrow> nat" where
  "round53 a =
     (if bit_length a \<le> 53 then a
      else let s = bit_length a - 53;
               q = a div 2 ^ s;
               r = a mod 2 ^ s;
               half = 2 ^ (s - 1)
           in (if r < half then q
               else if r > half then q + 1
               else if even q then q else q + 1) * 2 ^ s)"

text \<open>
  \<open>int(bet * 2.5)\<close>. The integer is converted to a double (\<open>OverflowError\<close> beyond the
  range of doubles), the product with 2.5 is rounded to a double, \<open>f\<close> being the magnitude
  of the first and \<open>p\<close> twice the magnitude of the second, and \<open>int\<close> truncates towards
  zero (\<open>OverflowError\<close> on an infinite product).
\<close>

definition blackjack_payout :: "int \<Rightarrow> error + int" where
  "blackjack_payout b =
     (let f = round53 (nat \<bar>b\<bar>)
      in if bit_length f > 1024 then Inl OverflowError
         else let p = round53 (5 * f)
              in if bit_length p > 1025 then Inl OverflowError
                 else Inr (if 0 \<le> b then int (p div 2) else - int (p div 2)))"

definition resolve_dealer_blackjack :: "game \<Rightarrow> (error + bool) \<times> game" where
  "resolve_dealer_blackjack g =
     (case call_is_blackjack (hand (player g)) of
        Inl e \<Rightarrow> (Inl e, g)
      | Inr b \<Rightarrow> if b then (Inr False, g\<lparr>player := win (player g) (bet g)\<rparr>)
                else (Inr False, g))"

definition resolve_player_blackjack :: "game \<Rightarrow> (error + bool) \<times> game" where
  "resolve_player_blackjack g =
     (case blackjack_payout (bet g) of
        Inl e \<Rightarrow> (Inl e, g)
      | Inr amount \<Rightarrow> (Inr False, g\<lparr>player := win (player g) amount\<rparr>))"

text \<open>
  \<open>Game.start_round\<close>. The result pairs what the call returns or raises with the state
  it leaves: what was mutated before an exception stays mutated.
\<close>

definition start_round :: "game \<Rightarrow> (error + bool) \<times> game" where
  "start_round g =
     (if bankroll (player g) < bet g then (Inr False, g)
      else case place_bet (player g) (bet g) of
        (placed, p) \<Rightarrow>
          if \<not> placed then (Inr False, g\<lparr>player := p\<rparr>)
          else
            let g1 = g\<lparr>player := clear_hands p, dealer := Hand []\<rparr>;
                g2 = deal_to_player g1;
                g3 = deal_to_dealer g2;
                g4 = deal_to_player g3;
                g5 = deal_to_dealer g4;
                g6 = g5\<lparr>round_active := True\<rparr>
            in case call_is_blackjack (dealer g6) of
                 Inl e \<Rightarrow> (Inl e, g6)
               | Inr dealer_bj \<Rightarrow>
                   if dealer_bj then resolve_dealer_blackjack g6
                   else (case call_is_blackjack (hand (player g6)) of
                           Inl e \<Rightarrow> (Inl e, g6)
                         | Inr player_bj \<Rightarrow>
                             if player_bj then resolve_player_blackjack g6
                             else (Inr True, g6)))"

text \<open>What one pass through a \<open>while\<close> loop of \<open>play_auto\<close> does.\<close>

datatype loop_step = Continue game | Break game | Raise error game

text \<open>
  One pass of the player's loop: the test \<open>self.player.hand.value < 21\<close>, the call of
  \<open>decide\<close> with the dealer's first card, \<open>can_double=True\<close>,
  \<open>can_split=self.player.hand.is_pair\<close> and the default \<open>can_surrender=True\<close>, and the
  branch on the action. \<open>DOUBLE_DOWN\<close> calls \<open>place_bet\<close> and drops what it returns.
\<close>

definition player_step :: "game \<Rightarrow> loop_step" where
  "player_step g =
     (case value (hand (player g)) of
        Inl e \<Rightarrow> Raise e g
      | Inr v \<Rightarrow>
          if \<not> v < 21 then Break g
          else case first_slot (dealer g) of
            Inl e \<Rightarrow> Raise e g
          | Inr upcard \<Rightarrow>
              (case is_pair (hand (player g)) of
                 Inl e \<Rightarrow> Raise e g
               | Inr pair \<Rightarrow>
                   (case decide (strategy (player g)) (hand (player g)) upcard True pair True of
                      Inl e \<Rightarrow> Raise e g
                    | Inr a \<Rightarrow>
                        if a = HIT then Continue (deal_to_player g)
                        else if a = STAND then Break g
                        else if a = DOUBLE_DOWN then
                          Break (deal_to_player (g\<lparr>player := snd (place_bet (player g) (bet g))\<rparr>))
                        else if a = SPLIT then Break g
                        else Break g)))"

text \<open>
  Every pass that continues either shortens the pool or, on an empty pool, puts an
  empty slot into the hand, after which the next test of the loop raises.
\<close>

definition turns_left :: "hand \<Rightarrow> game \<Rightarrow> nat" where
  "turns_left h g = length (deck_cards (deck g)) + (if None \<in> set (cards h) then 0 else 1)"

function player_turn :: "game \<Rightarrow> (error + unit) \<times> game" where
  "player_turn g =
     (case player_step g of
        Continue g' \<Rightarrow> player_turn g'
      | Break g' \<Rightarrow> (Inr (), g')
      | Raise e g' \<Rightarrow> (Inl e, g'))"
  by pat_completeness auto
termination
proof (relation "measure (\<lambda>g. turns_left (hand (player g)) g)")
  show "wf (measure (\<lambda>g. turns_left (hand (player g)) g))" by simp
next
  fix g g'
  assume step: "player_step g = Continue g'"
  have present: "None \<notin> set xs" if "sum_cards xs v n = Inr r" for xs v n r
    using that by (induction xs v n rule: sum_cards.induct) auto
  from step obtain v where "value (hand (player g)) = Inr v" and g': "g' = deal_to_player g"
    by (auto simp: player_step_def split: sum.splits if_splits)
  then have "None \<notin> set (cards (hand (player g)))"
    by (auto simp: value_def split: sum.splits dest: present)
  then show "(g', g) \<in> measure (\<lambda>g. turns_left (hand (player g)) g)"
    by (simp add: g' turns_left_def deal_to_player_def deal_def add_card_def Let_def)
qed

declare player_turn.simps [simp del]

text \<open>\<open>Dealer.should_hit\<close>.\<close>

definition should_hit :: "hand \<Rightarrow> error + bool" where
  "should_hit h = (case value h of Inl e \<Rightarrow> Inl e | Inr v \<Rightarrow> Inr (v < 17))"

text \<open>One pass of the dealer's loop, \<open>while self.dealer.should_hit()\<close>.\<close>

definition dealer_step :: "game \<Rightarrow> loop_step" where
  "dealer_step g =
     (case should_hit (dealer g) of
        Inl e \<Rightarrow> Raise e g
      | Inr hit \<Rightarrow> if hit then Continue (deal_to_dealer g) else Break g)"

function dealer_turn :: "game \<Rightarrow> (error + unit) \<times> game" where
  "dealer_turn g =
     (case dealer_step g of
        Continue g' \<Rightarrow> dealer_turn g'
      | Break g' \<Rightarrow> (Inr (), g')
      | Raise e g' \<Rightarrow> (Inl e, g'))"
  by pat_completeness auto
termination
proof (relation "measure (\<lambda>g. turns_left (dealer g) g)")
  show "wf (measure (\<lambda>g. turns_left (dealer g) g))" by simp
next
  fix g g'
  assume step: "dealer_step g = Continue g'"
  have present: "None \<notin> set xs" if "sum_cards xs v n = Inr r" for xs v n r
    using that by (induction xs v n rule: sum_cards.induct) auto
  from step obtain v where "value (dealer g) = Inr v" and g': "g' = deal_to_dealer g"
    by (auto simp: dealer_step_def should_hit_def split: sum.splits if_splits)
  then have "None \<notin> set (cards (dealer g))"
    by (auto simp: value_def split: sum.splits dest: present)
  then show "(g', g) \<in> measure (\<lambda>g. turns_left (dealer g) g)"
    by (simp add: g' turns_left_def deal_to_dealer_def deal_def add_card_def Let_def)
qed

declare dealer_turn.simps [simp del]

text \<open>\<open>Game._determine_winner\<close>.\<close>

definition determine_winner :: "game \<Rightarrow> (error + string) \<times> game" where
  "determine_winner g =
     (case value (hand (player g)) of
        Inl e \<Rightarrow> (Inl e, g)
      | Inr player_value \<Rightarrow>
          (case value (dealer g) of
             Inl e \<Rightarrow> (Inl e, g)
           | Inr dealer_value \<Rightarrow>
               if dealer_value > 21 then (Inr ''win'', g\<lparr>player := win (player g) (bet g * 2)\<rparr>)
               else if player_value > dealer_value then
                 (Inr ''win'', g\<lparr>player := win (player g) (bet g * 2)\<rparr>)
               else if player_value < dealer_value then (Inr ''loss'', g)
               else (Inr ''push'', g\<lparr>player := win (player g) (bet g)\<rparr>)))"

text \<open>
  \<open>Game.play_auto\<close> from its player's loop on: the part of the method that follows
  the test of \<open>start_round\<close>.
\<close>

definition finish_round :: "game \<Rightarrow> (error + string) \<times> game" where
  "finish_round g =
     (case player_turn g of
        (Inl e, g1) \<Rightarrow> (Inl e, g1)
      | (Inr u, g1) \<Rightarrow>
          (case value (hand (player g1)) of
             Inl e \<Rightarrow> (Inl e, g1)
           | Inr v \<Rightarrow>
               if v > 21 then (Inr ''loss'', g1)
               else (case dealer_turn g1 of
                       (Inl e, g2) \<Rightarrow> (Inl e, g2)
                     | (Inr u, g2) \<Rightarrow> determine_winner g2)))"

text \<open>\<open>Game.play_auto\<close>.\<close>

definition play_auto :: "game \<Rightarrow> (error + string) \<times> game" where
  "play_auto g =
     (case start_round g of
        (Inl e, g1) \<Rightarrow> (Inl e, g1)
      | (Inr started, g1) \<Rightarrow>
          if \<not> started then (Inr ''loss'', g1) else finish_round g1)"

section \<open>Concrete rounds\<close>

text \<open>
  An outcome of \<open>random.shuffle\<close> that leaves the cards \<open>ts\<close> at the end of the pool, so
  that they are dealt first, the last of \<open>ts\<close> before the others.
\<close>

definition stack_top :: "card list \<Rightarrow> card list \<Rightarrow> card list" where
  "stack_top ts xs = foldr remove1 ts xs @ ts"

text \<open>
  Scenario A: the player is dealt the Ace of spades and the King of hearts, the dealer
  the Nine of diamonds and the Two of clubs.
\<close>

definition scenario_A_top :: "card list" where
  "scenario_A_top = [Card TWO CLUBS, Card KING HEARTS, Card NINE DIAMONDS, Card ACE SPADES]"

text \<open>Both sides are dealt a natural blackjack.\<close>

definition both_blackjack_top :: "card list" where
  "both_blackjack_top = [Card KING CLUBS, Card QUEEN HEARTS, Card ACE DIAMONDS, Card ACE SPADES]"

text \<open>
  A game of a \<open>BasicStrategy\<close> player at bet 10 on one deck, after the deal of a round:
  the player holds \<open>ph\<close> and has \<open>b\<close> left, the dealer holds \<open>dh\<close>, and the pool is the
  rest of the deck with the cards \<open>ts\<close> at its end.
\<close>

definition dealt_round :: "int \<Rightarrow> card list \<Rightarrow> card list \<Rightarrow> card list \<Rightarrow> game" where
  "dealt_round b ph dh ts =
     \<lparr>player = \<lparr>bankroll = b, initial_bankroll = 1000, strategy = BasicStrategy,
                 hand = Hand ph, current_bet = 0\<rparr>,
      dealer = Hand dh,
      deck = \<lparr>num_decks = 1,
              deck_cards = stack_top ts (foldr remove1 (ph @ dh) one_deck),
              dealt_cards = ph @ dh\<rparr>,
      bet = 10, game_num_decks = 1, round_active = True, insurance_offered = False\<rparr>"

text \<open>
  The player is dealt the Five of spades and the Six of hearts, the dealer the Ten of
  clubs and the Seven of diamonds, and the Nine of spades is the next card of the pool.
\<close>

definition double_down_top :: "card list" where
  "double_down_top =
     [Card NINE SPADES, Card SEVEN DIAMONDS, Card SIX HEARTS, Card TEN CLUBS, Card FIVE SPADES]"

text \<open>A dealt round whose pool has run out, every other card being on the dealt list.\<close>

definition dealt_round_empty_shoe :: "int \<Rightarrow> card list \<Rightarrow> card list \<Rightarrow> game" where
  "dealt_round_empty_shoe b ph dh =
     (dealt_round b ph dh [])
       \<lparr>deck := \<lparr>num_decks = 1, deck_cards = [],
                  dealt_cards = foldr remove1 (ph @ dh) one_deck @ ph @ dh\<rparr>\<rparr>"

section \<open>Hand valuation\<close>

lemma sum_cards_Some:
  "sum_cards (map Some cs) v n = Inr (v + naive_sum cs, n + int (num_aces cs))"
  by (induction cs arbitrary: v n) (simp_all add: naive_sum_def num_aces_def)

lemma value_Hand:
  "value (Hand cs) = Inr (demote (naive_sum cs) (int (num_aces cs)))"
  by (simp add: value_def Hand_def sum_cards_Some)

lemma demote_steps:
  "0 \<le> n \<Longrightarrow>
     \<exists>k. int k \<le> n \<and> demote v n = v - 10 * int k
        \<and> (\<forall>j<k. 21 < v - 10 * int j)
        \<and> (int k < n \<longrightarrow> v - 10 * int k \<le> 21)"
proof (induction v n rule: demote.induct)
  case (1 v n)
  show ?case
  proof (cases "v > 21 \<and> n > 0")
    case False
    then have "demote v n = v" by (simp add: demote.simps)
    with False "1.prems" show ?thesis
      by (intro exI [of _ 0]) auto
  next
    case True
    then have step: "demote v n = demote (v - 10) (n - 1)"
      by (simp add: demote.simps)
    from True "1.prems" have "0 \<le> n - 1" by simp
    from "1.IH" [OF True this] obtain k where
      k: "int k \<le> n - 1" "demote (v - 10) (n - 1) = v - 10 - 10 * int k"
         "\<forall>j<k. 21 < v - 10 - 10 * int j"
         "int k < n - 1 \<longrightarrow> v - 10 - 10 * int k \<le> 21"
      by auto
    have later: "21 < v - 10 * int j" if "j < Suc k" for j
    proof (cases j)
      case 0
      with True show ?thesis by simp
    next
      case (Suc i)
      with that have "i < k" by simp
      with k(3) have "21 < v - 10 - 10 * int i" by blast
      with Suc show ?thesis by simp
    qed
    show ?thesis
      using k(1,2,4) step later
      by (intro exI [of _ "Suc k"]) (auto simp: algebra_simps)
  qed
qed

lemma demote_le: "0 \<le> n \<Longrightarrow> demote v n \<le> v"
  using demote_steps [of n v] by auto

lemma demote_id: "v \<le> 21 \<Longrightarrow> demote v n = v"
  by (simp add: demote.simps)

text \<open>
  C2. For every finite sequence of cards, \<open>Hand.value\<close> is the all-Aces-as-11 sum minus 10
  for each of \<open>k\<close> demotions, where a demotion happens exactly while the running total
  exceeds 21 and an Ace is left to demote (\<open>k\<close> is at most the number of Aces, every total
  before the \<open>k\<close>-th demotion exceeded 21, and the loop stopped early only at a total of at
  most 21). Hence the value is at most the all-Aces-as-11 sum, equals it whenever that
  sum is at most 21, and a hand of exactly four Aces has value 14.
\<close>

theorem C2_hand_value:
  "(\<exists>k. k \<le> num_aces cs
       \<and> value (Hand cs) = Inr (naive_sum cs - 10 * int k)
       \<and> (\<forall>j<k. 21 < naive_sum cs - 10 * int j)
       \<and> (k < num_aces cs \<longrightarrow> naive_sum cs - 10 * int k \<le> 21))
   \<and> (\<exists>v. value (Hand cs) = Inr v \<and> v \<le> naive_sum cs)
   \<and> (naive_sum cs \<le> 21 \<longrightarrow> value (Hand cs) = Inr (naive_sum cs))
   \<and> (map rank cs = [ACE, ACE, ACE, ACE] \<longrightarrow> value (Hand cs) = Inr 14)"
proof (intro conjI)
  from demote_steps [of "int (num_aces cs)" "naive_sum cs"]
  show "\<exists>k. k \<le> num_aces cs
       \<and> value (Hand cs) = Inr (naive_sum cs - 10 * int k)
       \<and> (\<forall>j<k. 21 < naive_sum cs - 10 * int j)
       \<and> (k < num_aces cs \<longrightarrow> naive_sum cs - 10 * int k \<le> 21)"
    by (auto simp: value_Hand)
  show "\<exists>v. value (Hand cs) = Inr v \<and> v \<le> naive_sum cs"
    by (simp add: value_Hand demote_le)
  show "naive_sum cs \<le> 21 \<longrightarrow> value (Hand cs) = Inr (naive_sum cs)"
    by (simp add: value_Hand demote_id)
  show "map rank cs = [ACE, ACE, ACE, ACE] \<longrightarrow> value (Hand cs) = Inr 14"
  proof
    assume "map rank cs = [ACE, ACE, ACE, ACE]"
    then obtain a b c d where cs: "cs = [a, b, c, d]"
      and r: "rank a = ACE" "rank b = ACE" "rank c = ACE" "rank d = ACE"
      by (auto simp: map_eq_Cons_conv)
    have "naive_sum cs = 44" "num_aces cs = 4"
      using r by (simp_all add: cs naive_sum_def num_aces_def card_value_def is_ace_def)
    then have "value (Hand cs) = Inr (demote 44 4)"
      by (simp add: value_Hand)
    also have "demote 44 4 = 14"
      by (simp add: demote.simps)
    finally show "value (Hand cs) = Inr 14" .
  qed
qed

theorem C2_hand_value_witness:
  "value (Hand [Card ACE SPADES, Card KING HEARTS, Card ACE CLUBS]) = Inr 12
   \<and> value (Hand [Card ACE SPADES, Card ACE HEARTS, Card ACE DIAMONDS, Card ACE CLUBS]) = Inr 14
   \<and> value (Hand [Card ACE SPADES, Card SEVEN HEARTS]) = Inr 18"
proof -
  let ?h = "[Card ACE SPADES, Card KING HEARTS, Card ACE CLUBS]"
  let ?a = "[Card ACE SPADES, Card ACE HEARTS, Card ACE DIAMONDS, Card ACE CLUBS]"
  let ?s = "[Card ACE SPADES, Card SEVEN HEARTS]"
  have n: "naive_sum ?h = 32" "num_aces ?h = 2"
    by (simp_all add: naive_sum_def num_aces_def card_value_def is_ace_def)
  from C2_hand_value [of ?h] obtain k where
    k: "k \<le> 2" "value (Hand ?h) = Inr (32 - 10 * int k)" "k < 2 \<longrightarrow> 32 - 10 * int k \<le> 21"
    unfolding n by blast
  from k(1,3) have "k = 2" by presburger
  with k(2) have 1: "value (Hand ?h) = Inr 12" by simp
  have "map rank ?a = [ACE, ACE, ACE, ACE]" by simp
  with C2_hand_value [of ?a] have 2: "value (Hand ?a) = Inr 14" by blast
  have "naive_sum ?s \<le> 21" "naive_sum ?s = 18"
    by (simp_all add: naive_sum_def card_value_def)
  with C2_hand_value [of ?s] have 3: "value (Hand ?s) = Inr 18" by simp
  from 1 2 3 show ?thesis by blast
qed

section \<open>Strategy decisions\<close>

lemma sum_cards_Inr_Some:
  "sum_cards xs v n = Inr r \<Longrightarrow> \<exists>cs. xs = map Some cs"
proof (induction xs v n rule: sum_cards.induct)
  case (1 v n)
  then show ?case by simp
next
  case (2 cs v n)
  then show ?case by simp
next
  case (3 c cs v n)
  then obtain ds where "cs = map Some ds" by auto
  then have "Some c # cs = map Some (c # ds)" by simp
  then show ?case by (rule exI)
qed

lemma value_Inr_Some: "value h = Inr v \<Longrightarrow> \<exists>cs. cards h = map Some cs"
  by (auto simp: value_def split: sum.splits dest: sum_cards_Inr_Some)

lemma value_Some:
  "cards h = map Some cs \<Longrightarrow> value h = Inr (demote (naive_sum cs) (int (num_aces cs)))"
  by (simp add: value_def sum_cards_Some)

lemma py_any_Some: "py_any p (map Some cs) = Inr (\<exists>c\<in>set cs. p c)"
  by (induction cs) auto

lemma py_sum_Some: "py_sum (map Some cs) = Inr (naive_sum cs)"
  by (induction cs) (simp_all add: naive_sum_def)

lemma is_soft_Some:
  "cards h = map Some cs \<Longrightarrow> is_soft h = Inr ((\<exists>c\<in>set cs. is_ace c) \<and> naive_sum cs \<le> 21)"
  by (simp add: is_soft_def py_any_Some py_sum_Some)

lemma is_pair_Some:
  "cards h = map Some cs \<Longrightarrow>
   is_pair h = Inr (case cs of [a, b] \<Rightarrow> rank a = rank b | _ \<Rightarrow> False)"
  by (auto simp: is_pair_def split: list.splits)

lemma basic_soft_range: "basic_soft pv dv cd \<in> {HIT, STAND, DOUBLE_DOWN}"
  by (simp add: basic_soft_def)

lemma basic_hard_range: "basic_hard pv dv cd \<in> {HIT, STAND, DOUBLE_DOWN}"
  by (simp add: basic_hard_def)

lemma is_pair_first_card:
  assumes "cards h = map Some cs"
  shows "is_pair h = Inr (same_rank_pair cs)"
    and "same_rank_pair cs \<Longrightarrow> first_card h = Inr (hd cs)"
  using assms
  by (auto simp: is_pair_Some same_rank_pair_def first_card_def first_slot_def
           split: list.splits)

lemma basic_decide_Some:
  assumes "cards h = map Some cs"
  shows "basic_decide h (Some d) cd csp csu =
         Inr (if same_rank_pair cs \<and> csp \<and> basic_pair_splits (rank (hd cs)) (card_value d)
              then SPLIT
              else if (\<exists>c\<in>set cs. is_ace c) \<and> naive_sum cs \<le> 21
              then basic_soft (demote (naive_sum cs) (int (num_aces cs))) (card_value d) cd
              else basic_hard (demote (naive_sum cs) (int (num_aces cs))) (card_value d) cd)"
proof (cases "same_rank_pair cs")
  case True
  with is_pair_first_card [OF assms] show ?thesis
    by (simp add: basic_decide_def value_Some [OF assms] slot_value_def is_soft_Some [OF assms])
next
  case False
  with is_pair_first_card(1) [OF assms] show ?thesis
    by (simp add: basic_decide_def value_Some [OF assms] slot_value_def is_soft_Some [OF assms])
qed

lemma conservative_decide_Some:
  assumes "cards h = map Some cs"
  shows "conservative_decide h d cd csp csu =
         Inr (if same_rank_pair cs \<and> csp \<and> is_ace (hd cs) then SPLIT
              else if demote (naive_sum cs) (int (num_aces cs)) \<ge> 12 then STAND
              else HIT)"
proof (cases "same_rank_pair cs")
  case True
  with is_pair_first_card [OF assms] show ?thesis
    by (simp add: conservative_decide_def value_Some [OF assms])
next
  case False
  with is_pair_first_card(1) [OF assms] show ?thesis
    by (simp add: conservative_decide_def value_Some [OF assms])
qed

lemma aggressive_decide_Some:
  assumes "cards h = map Some cs"
  shows "aggressive_decide h (Some d) cd csp csu =
         Inr (if same_rank_pair cs \<and> csp \<and> rank (hd cs) \<notin> {TEN, JACK, QUEEN, KING, FIVE}
              then SPLIT
              else if cd \<and> 9 \<le> demote (naive_sum cs) (int (num_aces cs))
                      \<and> demote (naive_sum cs) (int (num_aces cs)) \<le> 12
              then DOUBLE_DOWN
              else if demote (naive_sum cs) (int (num_aces cs)) < 18 then HIT
              else STAND)"
proof (cases "same_rank_pair cs")
  case True
  with is_pair_first_card [OF assms] show ?thesis
    by (simp add: aggressive_decide_def value_Some [OF assms] slot_value_def)
next
  case False
  with is_pair_first_card(1) [OF assms] show ?thesis
    by (simp add: aggressive_decide_def value_Some [OF assms] slot_value_def)
qed

lemma basic_decide_total:
  assumes "cards h = map Some cs"
  shows "\<exists>a. basic_decide h (Some d) cd csp csu = Inr a \<and> a \<in> {HIT, STAND, DOUBLE_DOWN, SPLIT}"
  using basic_soft_range [of "demote (naive_sum cs) (int (num_aces cs))" "card_value d" cd]
        basic_hard_range [of "demote (naive_sum cs) (int (num_aces cs))" "card_value d" cd]
  unfolding basic_decide_Some [OF assms] by auto

lemma conservative_decide_total:
  assumes "cards h = map Some cs"
  shows "\<exists>a. conservative_decide h (Some d) cd csp csu = Inr a \<and> a \<in> {HIT, STAND, SPLIT}"
  unfolding conservative_decide_Some [OF assms] by simp

lemma aggressive_decide_total:
  assumes "cards h = map Some cs"
  shows "\<exists>a. aggressive_decide h (Some d) cd csp csu = Inr a \<and> a \<in> {HIT, STAND, DOUBLE_DOWN, SPLIT}"
  unfolding aggressive_decide_Some [OF assms] by simp

text \<open>
  C3. For every hand of cards (any card sequence, the empty one included, whatever the
  hand's split, doubled and surrendered flags), every dealer upcard and every combination
  of \<open>can_double\<close>, \<open>can_split\<close> and \<open>can_surrender\<close>, \<open>decide\<close> of each of the five
  strategies (in any state of its counters) returns a value instead of raising, and that
  value is one of \<open>HIT\<close>, \<open>STAND\<close>, \<open>DOUBLE_DOWN\<close>, \<open>SPLIT\<close>, \<open>SURRENDER\<close>, never
  \<open>INSURANCE\<close>. The method has no loop, so it terminates.
\<close>

theorem C3_decide_total:
  "\<exists>a. decide s (h\<lparr>cards := map Some cs\<rparr>) (Some d) can_double can_split can_surrender = Inr a
       \<and> a \<in> {HIT, STAND, DOUBLE_DOWN, SPLIT, SURRENDER} \<and> a \<noteq> INSURANCE"
proof -
  let ?h = "h\<lparr>cards := map Some cs\<rparr>"
  have c: "cards ?h = map Some cs" by simp
  show ?thesis
  proof (cases s)
    case BasicStrategy
    with basic_decide_total [OF c] show ?thesis by fastforce
  next
    case ConservativeStrategy
    with conservative_decide_total [OF c] show ?thesis by fastforce
  next
    case AggressiveStrategy
    with aggressive_decide_total [OF c] show ?thesis by fastforce
  next
    case (MartingaleStrategy n)
    with basic_decide_total [OF c] show ?thesis by fastforce
  next
    case (CardCountingStrategy k)
    with basic_decide_total [OF c] show ?thesis by fastforce
  qed
qed


lemma soft_18_cards:
  assumes "is_soft h = Inr True" and "value h = Inr 18"
  obtains cs where "cards h = map Some cs" and "\<exists>c\<in>set cs. is_ace c"
    and "naive_sum cs = 18" and "\<not> same_rank_pair cs"
proof -
  from assms(2) obtain cs where cs: "cards h = map Some cs"
    by (blast dest: value_Inr_Some)
  from assms(1) have soft: "\<exists>c\<in>set cs. is_ace c" "naive_sum cs \<le> 21"
    by (simp_all add: is_soft_Some [OF cs])
  from assms(2) soft(2) have n: "naive_sum cs = 18"
    by (simp add: value_Some [OF cs] demote_id)
  have "\<not> same_rank_pair cs"
  proof
    assume "same_rank_pair cs"
    then obtain a b where ab: "cs = [a, b]" "rank a = rank b"
      by (auto simp: same_rank_pair_def split: list.splits)
    with soft(1) have "rank a = ACE" "rank b = ACE"
      by (auto simp: is_ace_def)
    with ab have "naive_sum cs = 22"
      by (simp add: naive_sum_def card_value_def)
    with n show False by simp
  qed
  with cs soft(1) n show thesis by (rule that)
qed

text \<open>
  Where \<open>is_soft\<close> holds, a hand of value 18 gets \<open>DOUBLE_DOWN\<close> from
  \<open>BasicStrategy.decide\<close> when doubling is allowed and the dealer upcard's value is 3 to
  6, \<open>STAND\<close> for every other upcard of value at most 8, and \<open>HIT\<close> when the upcard is a
  nine, a ten-valued card or an Ace, whatever \<open>can_split\<close> and \<open>can_surrender\<close> are.
\<close>

lemma basic_decide_soft_18:
  assumes "is_soft h = Inr True" and "value h = Inr 18"
  shows "(can_double \<and> 3 \<le> card_value d \<and> card_value d \<le> 6 \<longrightarrow>
            decide BasicStrategy h (Some d) can_double can_split can_surrender = Inr DOUBLE_DOWN)
       \<and> (\<not> (can_double \<and> 3 \<le> card_value d \<and> card_value d \<le> 6) \<and> card_value d \<le> 8 \<longrightarrow>
            decide BasicStrategy h (Some d) can_double can_split can_surrender = Inr STAND)
       \<and> (rank d = NINE \<or> is_ten_value d \<or> is_ace d \<longrightarrow>
            decide BasicStrategy h (Some d) can_double can_split can_surrender = Inr HIT)"
proof -
  from assms obtain cs where cs: "cards h = map Some cs" and ace: "\<exists>c\<in>set cs. is_ace c"
    and n: "naive_sum cs = 18" and np: "\<not> same_rank_pair cs"
    by (rule soft_18_cards)
  have d: "decide BasicStrategy h (Some d) can_double can_split can_surrender
           = Inr (basic_soft 18 (card_value d) can_double)"
    using ace n np by (simp add: basic_decide_Some [OF cs] demote_id)
  have hi: "8 < card_value d" if "rank d = NINE \<or> is_ten_value d \<or> is_ace d"
    using that by (auto simp: card_value_def is_ten_value_def is_ace_def)
  show ?thesis
    unfolding d using hi by (auto simp: basic_soft_def)
qed

text \<open>
  C5, at a soft 18 with two Aces. The Ace of spades, the Ace of hearts and the Six of
  clubs have value 18 with one Ace counted as 11, but \<open>is_soft\<close> adds both Aces at 11,
  finds 28 and answers false, so \<open>BasicStrategy.decide\<close> takes the hard block and stands:
  against a nine, a ten-valued card and an Ace, where the claim has \<open>HIT\<close>, and against
  a five with doubling allowed, where the claim has \<open>DOUBLE_DOWN\<close>.
\<close>

theorem C5_two_ace_soft_18_stands:
  "value (Hand [Card ACE SPADES, Card ACE HEARTS, Card SIX CLUBS]) = Inr 18
   \<and> is_soft (Hand [Card ACE SPADES, Card ACE HEARTS, Card SIX CLUBS]) = Inr False
   \<and> decide BasicStrategy (Hand [Card ACE SPADES, Card ACE HEARTS, Card SIX CLUBS])
         (Some (Card NINE DIAMONDS)) True True True = Inr STAND
   \<and> decide BasicStrategy (Hand [Card ACE SPADES, Card ACE HEARTS, Card SIX CLUBS])
         (Some (Card KING DIAMONDS)) True True True = Inr STAND
   \<and> decide BasicStrategy (Hand [Card ACE SPADES, Card ACE HEARTS, Card SIX CLUBS])
         (Some (Card ACE DIAMONDS)) True True True = Inr STAND
   \<and> decide BasicStrategy (Hand [Card ACE SPADES, Card ACE HEARTS, Card SIX CLUBS])
         (Some (Card FIVE DIAMONDS)) True True True = Inr STAND"
  by code_simp

section \<open>The running count\<close>

lemma update_count_hi_lo:
  "running_count (update_count s c) = running_count s + hi_lo (rank c)"
  by (cases c; cases "rank c")
     (simp_all add: update_count_def hi_lo_def card_value_def is_ace_def Let_def)

lemma observe_hi_lo:
  "running_count (observe s cs) = running_count s + sum_list (map hi_lo (map rank cs))"
  by (induction cs arbitrary: s) (simp_all add: update_count_hi_lo)

lemma hi_lo_all_ranks:
  assumes "mset rs = mset all_ranks"
  shows "sum_list (map hi_lo rs) = 0"
proof -
  have "sum_list (map hi_lo rs) = sum_mset (image_mset hi_lo (mset rs))"
    by (simp flip: sum_mset_sum_list)
  also have "\<dots> = sum_mset (image_mset hi_lo (mset all_ranks))"
    by (simp add: assms)
  also have "\<dots> = sum_list (map hi_lo all_ranks)"
    by (simp flip: sum_mset_sum_list)
  also have "\<dots> = 0"
    by (simp add: all_ranks_def hi_lo_def)
  finally show ?thesis .
qed

text \<open>
  C8. \<open>update_count\<close> changes the running count by +1 for a card of rank 2 to 6, by 0 for
  a card of rank 7 to 9 and by -1 for a ten-valued card or an Ace. Hence, from a freshly
  constructed or a reset strategy, observing exactly one card of each of the 13 ranks,
  in any order and of any suits, leaves the running count at 0.
\<close>

theorem C8_hi_lo_count:
  "(rank c \<in> {TWO, THREE, FOUR, FIVE, SIX} \<longrightarrow>
      running_count (update_count s c) = running_count s + 1)
   \<and> (rank c \<in> {SEVEN, EIGHT, NINE} \<longrightarrow>
      running_count (update_count s c) = running_count s)
   \<and> (is_ten_value c \<or> is_ace c \<longrightarrow>
      running_count (update_count s c) = running_count s - 1)
   \<and> (mset (map rank cs) = mset all_ranks \<longrightarrow>
      running_count (observe fresh_count cs) = 0
      \<and> running_count (observe (reset_count s) cs) = 0)"
proof -
  have "hi_lo (rank c) = - 1" if "is_ten_value c \<or> is_ace c"
    using that by (cases "rank c") (simp_all add: hi_lo_def is_ten_value_def card_value_def is_ace_def)
  moreover have "running_count (observe fresh_count cs) = 0"
    and "running_count (observe (reset_count s) cs) = 0"
    if "mset (map rank cs) = mset all_ranks"
    using hi_lo_all_ranks [OF that]
    by (simp_all add: observe_hi_lo fresh_count_def reset_count_def)
  ultimately show ?thesis
    by (auto simp: update_count_hi_lo hi_lo_def)
qed

theorem C8_hi_lo_count_witness:
  "running_count (update_count \<lparr>running_count = 4, cards_seen = 9\<rparr> (Card THREE HEARTS)) = 5
   \<and> running_count (update_count \<lparr>running_count = 4, cards_seen = 9\<rparr> (Card EIGHT HEARTS)) = 4
   \<and> running_count (update_count \<lparr>running_count = 4, cards_seen = 9\<rparr> (Card QUEEN HEARTS)) = 3
   \<and> running_count (observe (reset_count \<lparr>running_count = 4, cards_seen = 9\<rparr>)
        [Card KING CLUBS, Card TWO HEARTS, Card ACE SPADES, Card SEVEN CLUBS, Card TEN HEARTS,
         Card THREE DIAMONDS, Card JACK SPADES, Card NINE HEARTS, Card FOUR CLUBS,
         Card QUEEN DIAMONDS, Card SIX SPADES, Card EIGHT CLUBS, Card FIVE HEARTS]) = 0"
proof -
  let ?s = "\<lparr>running_count = 4, cards_seen = 9\<rparr>"
  let ?cs = "[Card KING CLUBS, Card TWO HEARTS, Card ACE SPADES, Card SEVEN CLUBS,
         Card TEN HEARTS, Card THREE DIAMONDS, Card JACK SPADES, Card NINE HEARTS,
         Card FOUR CLUBS, Card QUEEN DIAMONDS, Card SIX SPADES, Card EIGHT CLUBS,
         Card FIVE HEARTS]"
  have once: "mset (map rank ?cs) = mset all_ranks"
    by (simp add: all_ranks_def)
  show ?thesis
    using C8_hi_lo_count [of "Card THREE HEARTS" ?s ?cs]
          C8_hi_lo_count [of "Card EIGHT HEARTS" ?s ?cs]
          C8_hi_lo_count [of "Card QUEEN HEARTS" ?s ?cs] once
    by (simp add: is_ten_value_def card_value_def)
qed

section \<open>The shoe\<close>

lemma length_one_deck: "length one_deck = 52"
  by (simp add: one_deck_def all_ranks_def all_suits_def)

lemma length_concat_replicate: "length (concat (replicate n xs)) = n * length xs"
  by (induction n) simp_all

lemma Deck_fresh:
  assumes "1 \<le> n" and "\<forall>xs. mset (perm xs) = mset xs"
  obtains d0 where "Deck n shuffle_on_init perm = Inr d0" and "num_decks d0 = n"
    and "length (deck_cards d0) = 52 * nat n" and "dealt_cards d0 = []"
proof -
  have len: "length (perm xs) = length xs" for xs
    using assms(2) by (metis size_mset)
  let ?d = "reset \<lparr>num_decks = n, deck_cards = [], dealt_cards = []\<rparr>"
  let ?d0 = "if shuffle_on_init then shuffle perm ?d else ?d"
  have "Deck n shuffle_on_init perm = Inr ?d0"
    using assms(1) by (simp add: Deck_def Let_def)
  moreover have "num_decks ?d0 = n"
    by (simp add: reset_def shuffle_def)
  moreover have "length (deck_cards ?d0) = 52 * nat n"
    by (simp add: reset_def shuffle_def len length_concat_replicate length_one_deck)
  moreover have "dealt_cards ?d0 = []"
    by (simp add: reset_def shuffle_def)
  ultimately show thesis by (rule that)
qed

lemma deal_nonempty:
  assumes "deck_cards d \<noteq> []"
  shows "\<exists>c d'. deal d = (Some c, d') \<and> deck_cards d = deck_cards d' @ [c]
           \<and> dealt_cards d' = dealt_cards d @ [c] \<and> num_decks d' = num_decks d
           \<and> remaining d' = remaining d - 1 \<and> dealt_count d' = dealt_count d + 1"
  using assms by (simp add: deal_def Let_def remaining_def dealt_count_def of_nat_diff Suc_le_eq)

lemma deal_empty: "deck_cards d = [] \<Longrightarrow> deal d = (None, d)"
  by (simp add: deal_def)

lemma deal_conserved: "conserved d \<Longrightarrow> conserved (snd (deal d))"
proof (cases "deck_cards d = []")
  case True
  assume "conserved d"
  with True show ?thesis by (simp add: deal_empty)
next
  case False
  assume c: "conserved d"
  from deal_nonempty [OF False] obtain c' d' where
    "deal d = (Some c', d')" "num_decks d' = num_decks d"
    "remaining d' = remaining d - 1" "dealt_count d' = dealt_count d + 1"
    by blast
  with c show ?thesis by (simp add: conserved_def total_cards_def)
qed

lemma deals_conserved: "conserved d \<Longrightarrow> conserved (deals k d)"
  by (induction k arbitrary: d) (simp_all add: deal_conserved)

lemma deal_length: "length (deck_cards (snd (deal d))) = length (deck_cards d) - 1"
  by (simp add: deal_def Let_def)

lemma deals_length: "length (deck_cards (deals k d)) = length (deck_cards d) - k"
  by (induction k arbitrary: d) (simp_all add: deal_length)

text \<open>
  C6. For every \<open>Deck\<close> with \<open>num_decks\<close> at least 1, shuffled on construction or not
  (whatever permutation the shuffle draws), and after every number \<open>k\<close> of \<open>deal\<close> calls:
  \<open>remaining + dealt_count = total_cards\<close>; on a shoe that still has cards the next
  \<open>deal\<close> returns a card, takes exactly that card off the end of the pool and appends it
  to the dealt list; on a depleted shoe \<open>deal\<close> returns \<open>None\<close> without raising and
  leaves the shoe as it is. After \<open>total_cards\<close> calls the shoe is depleted.
\<close>

theorem C6_deck_conservation:
  assumes "1 \<le> n" and "\<forall>xs. mset (perm xs) = mset xs"
  shows "\<exists>d0. Deck n shuffle_on_init perm = Inr d0
     \<and> (\<forall>k. remaining (deals k d0) + dealt_count (deals k d0) = total_cards (deals k d0)
          \<and> (remaining (deals k d0) \<noteq> 0 \<longrightarrow>
               (\<exists>c d'. deal (deals k d0) = (Some c, d')
                  \<and> deck_cards (deals k d0) = deck_cards d' @ [c]
                  \<and> dealt_cards d' = dealt_cards (deals k d0) @ [c]
                  \<and> remaining d' = remaining (deals k d0) - 1
                  \<and> dealt_count d' = dealt_count (deals k d0) + 1))
          \<and> (remaining (deals k d0) = 0 \<longrightarrow> deal (deals k d0) = (None, deals k d0)))
     \<and> remaining (deals (nat (total_cards d0)) d0) = 0"
proof -
  from assms obtain d0 where d0: "Deck n shuffle_on_init perm = Inr d0" "num_decks d0 = n"
    "length (deck_cards d0) = 52 * nat n" "dealt_cards d0 = []"
    by (rule Deck_fresh)
  from d0(2-4) assms(1) have "conserved d0"
    by (simp add: conserved_def remaining_def dealt_count_def total_cards_def)
  then have inv: "conserved (deals k d0)" for k
    by (rule deals_conserved)
  have step: "\<exists>c d'. deal d = (Some c, d') \<and> deck_cards d = deck_cards d' @ [c]
           \<and> dealt_cards d' = dealt_cards d @ [c]
           \<and> remaining d' = remaining d - 1 \<and> dealt_count d' = dealt_count d + 1"
    if "remaining d \<noteq> 0" for d
    using that deal_nonempty [of d] by (auto simp: remaining_def)
  have none: "deal d = (None, d)" if "remaining d = 0" for d
    using that by (simp add: remaining_def deal_empty)
  have "remaining (deals (nat (total_cards d0)) d0) = 0"
    using d0(2,3) assms(1) by (simp add: remaining_def deals_length total_cards_def)
  with d0(1) inv step none show ?thesis
    unfolding conserved_def by blast
qed

theorem C6_deck_conservation_witness:
  "(case Deck 1 True rev of
      Inl e \<Rightarrow> False
    | Inr d0 \<Rightarrow>
        remaining (deals 3 d0) + dealt_count (deals 3 d0) = 52
        \<and> remaining (deals 52 d0) = 0
        \<and> deal (deals 52 d0) = (None, deals 52 d0))"
proof -
  have p: "\<forall>xs::card list. mset (rev xs) = mset xs" by simp
  from C6_deck_conservation [OF _ p, of 1 True] obtain d0 where
    d0: "Deck 1 True rev = Inr d0"
    and inv: "\<And>k. remaining (deals k d0) + dealt_count (deals k d0) = total_cards (deals k d0)"
    and none: "\<And>k. remaining (deals k d0) = 0 \<longrightarrow> deal (deals k d0) = (None, deals k d0)"
    and last: "remaining (deals (nat (total_cards d0)) d0) = 0"
    by auto
  have n: "num_decks (deals k d) = num_decks d" for k d
    by (induction k arbitrary: d) (simp_all add: deal_def Let_def)
  have "num_decks d0 = 1"
    using d0 by (auto simp: Deck_def reset_def shuffle_def Let_def)
  then have t: "total_cards (deals k d0) = 52" for k
    by (simp add: total_cards_def n)
  from t [of 0] last have "remaining (deals 52 d0) = 0" by simp
  with inv [of 3] none [of 52] t [of 3] d0 show ?thesis by simp
qed


section \<open>Insufficient funds\<close>

text \<open>
  C7. For every player and every amount greater than the bankroll, \<open>place_bet\<close> returns
  \<open>False\<close> and leaves the player, so bankroll and current bet, unchanged. For every game
  whose player's bankroll is below the bet, \<open>start_round\<close> returns \<open>False\<close> and leaves the
  whole game unchanged: no bet deducted, no card dealt, no hand cleared.
\<close>

theorem C7_insufficient_funds:
  "(amount > bankroll p \<longrightarrow> place_bet p amount = (False, p))
   \<and> (bankroll (player g) < bet g \<longrightarrow> start_round g = (Inr False, g))"
  by (simp add: place_bet_def start_round_def)

theorem C7_insufficient_funds_witness:
  "place_bet (Player 5 BasicStrategy) 10 = (False, Player 5 BasicStrategy)
   \<and> start_round
        \<lparr>player = (Player 5 BasicStrategy)\<lparr>hand := Hand [Card TEN SPADES, Card NINE HEARTS]\<rparr>,
         dealer = Hand [Card SIX CLUBS, Card KING CLUBS],
         deck = \<lparr>num_decks = 1, deck_cards = [Card TWO SPADES, Card THREE SPADES],
                 dealt_cards = []\<rparr>,
         bet = 10, game_num_decks = 1, round_active = False, insurance_offered = False\<rparr>
     = (Inr False,
        \<lparr>player = (Player 5 BasicStrategy)\<lparr>hand := Hand [Card TEN SPADES, Card NINE HEARTS]\<rparr>,
         dealer = Hand [Card SIX CLUBS, Card KING CLUBS],
         deck = \<lparr>num_decks = 1, deck_cards = [Card TWO SPADES, Card THREE SPADES],
                 dealt_cards = []\<rparr>,
         bet = 10, game_num_decks = 1, round_active = False, insurance_offered = False\<rparr>)"
proof -
  let ?p = "Player 5 BasicStrategy"
  let ?g = "\<lparr>player = ?p\<lparr>hand := Hand [Card TEN SPADES, Card NINE HEARTS]\<rparr>,
         dealer = Hand [Card SIX CLUBS, Card KING CLUBS],
         deck = \<lparr>num_decks = 1, deck_cards = [Card TWO SPADES, Card THREE SPADES],
                 dealt_cards = []\<rparr>,
         bet = 10, game_num_decks = 1, round_active = False, insurance_offered = False\<rparr>"
  have 1: "10 > bankroll ?p" by (simp add: Player_def)
  have 2: "bankroll (player ?g) < bet ?g" by (simp add: Player_def)
  from C7_insufficient_funds [where amount = 10 and p = ?p and g = ?g] 1 2
  show ?thesis by blast
qed

section \<open>The player's turn\<close>

lemma place_bet_cases:
  "snd (place_bet p a) =
     (if a \<le> bankroll p
      then p\<lparr>bankroll := bankroll p - a, current_bet := current_bet p + a\<rparr> else p)"
  by (simp add: place_bet_def)

lemma deal_to_player_frame:
  "bankroll (player (deal_to_player g)) = bankroll (player g)"
  "current_bet (player (deal_to_player g)) = current_bet (player g)"
  "cards (hand (player (deal_to_player g))) = cards (hand (player g)) @ [fst (deal (deck g))]"
  "deck (deal_to_player g) = snd (deal (deck g))"
  "bet (deal_to_player g) = bet g"
  "dealer (deal_to_player g) = dealer g"
  by (simp_all add: deal_to_player_def add_card_def split: prod.splits)

lemma player_step_dealer:
  "player_step g = Continue g' \<or> player_step g = Break g' \<or> player_step g = Raise e g'
   \<Longrightarrow> dealer g' = dealer g"
  by (auto simp: player_step_def deal_to_player_frame split: sum.splits if_splits)

lemma player_turn_dealer: "dealer (snd (player_turn g)) = dealer g"
proof (induction g rule: player_turn.induct)
  case (1 g)
  show ?case
  proof (cases "player_step g")
    case (Continue g1)
    then have "player_turn g = player_turn g1" by (simp add: player_turn.simps [of g])
    with "1.IH" [OF Continue] player_step_dealer [of g g1] Continue show ?thesis by simp
  next
    case (Break g1)
    with player_step_dealer [of g g1] show ?thesis by (simp add: player_turn.simps [of g])
  next
    case (Raise e g1)
    with player_step_dealer [of g g1 e] show ?thesis by (simp add: player_turn.simps [of g])
  qed
qed

section \<open>The dealer's turn\<close>

lemma dealer_step_cases:
  "dealer_step g =
     (case value (dealer g) of
        Inl e \<Rightarrow> Raise e g
      | Inr v \<Rightarrow> if v < 17 then Continue (deal_to_dealer g) else Break g)"
  by (simp add: dealer_step_def should_hit_def split: sum.splits)

lemma dealer_turn_unfold:
  "dealer_turn g =
     (case value (dealer g) of
        Inl e \<Rightarrow> (Inl e, g)
      | Inr v \<Rightarrow> if v < 17 then dealer_turn (deal_to_dealer g) else (Inr (), g))"
  by (subst dealer_turn.simps) (simp add: dealer_step_cases split: sum.splits)

lemma dealer_turn_final:
  "dealer_turn g = (Inr u, g') \<Longrightarrow> \<exists>v. value (dealer g') = Inr v \<and> 17 \<le> v"
proof (induction g rule: dealer_turn.induct)
  case (1 g)
  show ?case
  proof (cases "dealer_step g")
    case (Continue g1)
    with "1.prems" have "dealer_turn g1 = (Inr u, g')"
      by (simp add: dealer_turn.simps [of g])
    with "1.IH" [OF Continue] show ?thesis .
  next
    case (Break g1)
    with "1.prems" have "g' = g1" by (simp add: dealer_turn.simps [of g])
    with Break show ?thesis
      by (auto simp: dealer_step_cases split: sum.splits if_splits)
  next
    case (Raise e g1)
    with "1.prems" show ?thesis by (simp add: dealer_turn.simps [of g])
  qed
qed

lemma deal_to_dealer_frame:
  "player (deal_to_dealer g) = player g" "bet (deal_to_dealer g) = bet g"
  "cards (dealer (deal_to_dealer g)) = cards (dealer g) @ [fst (deal (deck g))]"
  by (simp_all add: deal_to_dealer_def add_card_def split: prod.splits)

lemma dealer_turn_frame:
  "player (snd (dealer_turn g)) = player g \<and> bet (snd (dealer_turn g)) = bet g
   \<and> (\<exists>more. cards (dealer (snd (dealer_turn g))) = cards (dealer g) @ more)"
proof (induction g rule: dealer_turn.induct)
  case (1 g)
  show ?case
  proof (cases "dealer_step g")
    case (Continue g1)
    then have g1: "g1 = deal_to_dealer g"
      by (auto simp: dealer_step_cases split: sum.splits if_splits)
    from Continue have "dealer_turn g = dealer_turn g1"
      by (simp add: dealer_turn.simps [of g])
    with "1.IH" [OF Continue] show ?thesis
      by (auto simp: g1 deal_to_dealer_frame)
  next
    case (Break g1)
    then have "g1 = g" by (auto simp: dealer_step_cases split: sum.splits if_splits)
    with Break show ?thesis by (simp add: dealer_turn.simps [of g])
  next
    case (Raise e g1)
    then have "g1 = g" by (auto simp: dealer_step_cases split: sum.splits if_splits)
    with Raise show ?thesis by (simp add: dealer_turn.simps [of g])
  qed
qed

lemma determine_winner_payout:
  assumes "determine_winner g = (Inr r, g')"
  shows "r \<in> {''win'', ''loss'', ''push''}
       \<and> bankroll (player g') = bankroll (player g)
           + (if r = ''win'' then bet g * 2 else if r = ''push'' then bet g else 0)
       \<and> dealer g' = dealer g \<and> hand (player g') = hand (player g)"
  using assms
  by (auto simp: determine_winner_def win_def split: sum.splits if_splits)

lemma finish_round_settled:
  assumes "finish_round g = (Inr r, g')"
  shows "\<exists>pv. value (hand (player g')) = Inr pv
           \<and> (21 < pv \<and> r = ''loss'' \<or> (\<exists>dv. value (dealer g') = Inr dv \<and> 17 \<le> dv))"
proof -
  from assms obtain u g1 pv where pt: "player_turn g = (Inr u, g1)"
    and pv: "value (hand (player g1)) = Inr pv"
    by (auto simp: finish_round_def split: prod.splits sum.splits)
  show ?thesis
  proof (cases "21 < pv")
    case True
    with assms pt pv show ?thesis by (auto simp: finish_round_def)
  next
    case False
    with assms pt pv obtain u' g2 where dt: "dealer_turn g1 = (Inr u', g2)"
      and dw: "determine_winner g2 = (Inr r, g')"
      by (auto simp: finish_round_def split: prod.splits sum.splits)
    from dealer_turn_final [OF dt] obtain dv where "value (dealer g2) = Inr dv" "17 \<le> dv"
      by blast
    moreover from dealer_turn_frame [of g1] dt pv have "value (hand (player g2)) = Inr pv"
      by (simp add: value_def)
    ultimately show ?thesis
      using determine_winner_payout [OF dw] by (auto simp: value_def)
  qed
qed

lemma dealer_turn_real_card:
  assumes "value (dealer g) = Inr v" and "v < 17" and "dealer_turn g = (Inr u, g')"
  shows "\<exists>c more. cards (dealer g') = cards (dealer g) @ Some c # more"
proof -
  from assms(1,2) have step: "dealer_turn g = dealer_turn (deal_to_dealer g)"
    by (simp add: dealer_turn_unfold [of g])
  from dealer_turn_frame [of "deal_to_dealer g"] assms(3) obtain more where
    more: "cards (dealer g') = cards (dealer g) @ fst (deal (deck g)) # more"
    by (auto simp: step deal_to_dealer_frame)
  from dealer_turn_final [OF assms(3)] obtain cs where "cards (dealer g') = map Some cs"
    by (blast dest: value_Inr_Some)
  with more have "fst (deal (deck g)) \<in> set (map Some cs)"
    by (metis in_set_conv_decomp)
  then obtain c where "fst (deal (deck g)) = Some c" by auto
  with more show ?thesis by auto
qed

lemma finish_round_real_card:
  assumes "value (dealer g) = Inr v" and "v < 17" and "finish_round g = (Inr r, g')"
  shows "(\<exists>pv. value (hand (player g')) = Inr pv \<and> 21 < pv \<and> r = ''loss'')
       \<or> (\<exists>c more. cards (dealer g') = cards (dealer g) @ Some c # more)"
proof -
  from assms(3) obtain u g1 pv where pt: "player_turn g = (Inr u, g1)"
    and pv: "value (hand (player g1)) = Inr pv"
    by (auto simp: finish_round_def split: prod.splits sum.splits)
  from player_turn_dealer [of g] pt have d1: "dealer g1 = dealer g" by simp
  show ?thesis
  proof (cases "21 < pv")
    case True
    with assms(3) pt pv show ?thesis by (auto simp: finish_round_def)
  next
    case False
    with assms(3) pt pv obtain u' g2 where dt: "dealer_turn g1 = (Inr u', g2)"
      and dw: "determine_winner g2 = (Inr r, g')"
      by (auto simp: finish_round_def split: prod.splits sum.splits)
    from assms(1) d1 have "value (dealer g1) = Inr v" by simp
    from dealer_turn_real_card [OF this assms(2) dt] d1
    have "\<exists>c more. cards (dealer g2) = cards (dealer g) @ Some c # more" by simp
    with determine_winner_payout [OF dw] show ?thesis by simp
  qed
qed

text \<open>
  C4, amended. During the dealer's turn the dealer draws exactly while the hand's value is
  below 17, with no distinction between soft and hard hands: \<open>should_hit\<close> is the test
  \<open>value < 17\<close>; below 17 the turn goes on after one more draw; at 17 or more, soft 17
  included, the turn ends at once with nothing drawn. In particular, from a dealer hand
  of value below 17, so of value 16, every dealer's turn that ends and every round that
  is settled by comparing the two hands has added at least one card to that hand. A
  dealer's turn that ends without an exception ends at a value of at least 17, and every
  round settled by comparison compares a dealer hand of value at least 17.
\<close>

theorem C4_dealer_turn:
  "(\<forall>v. value (dealer g) = Inr v \<longrightarrow>
      should_hit (dealer g) = Inr (v < 17)
      \<and> (v < 17 \<longrightarrow>
           dealer_turn g = dealer_turn (deal_to_dealer g)
           \<and> (\<forall>g'. dealer_turn g = (Inr (), g') \<longrightarrow>
                 (\<exists>c more. cards (dealer g') = cards (dealer g) @ Some c # more))
           \<and> (\<forall>r g'. finish_round g = (Inr r, g') \<longrightarrow>
                 (\<exists>pv. value (hand (player g')) = Inr pv \<and> 21 < pv \<and> r = ''loss'')
                 \<or> (\<exists>c more. cards (dealer g') = cards (dealer g) @ Some c # more)))
      \<and> (17 \<le> v \<longrightarrow> dealer_turn g = (Inr (), g)))
   \<and> (\<forall>g'. dealer_turn g = (Inr (), g') \<longrightarrow> (\<exists>v. value (dealer g') = Inr v \<and> 17 \<le> v))
   \<and> (\<forall>r g'. finish_round g = (Inr r, g') \<longrightarrow>
        (\<exists>pv. value (hand (player g')) = Inr pv
           \<and> (21 < pv \<and> r = ''loss'' \<or> (\<exists>dv. value (dealer g') = Inr dv \<and> 17 \<le> dv))))"
proof (intro conjI allI impI)
  fix v assume v: "value (dealer g) = Inr v"
  then show "should_hit (dealer g) = Inr (v < 17)" by (simp add: should_hit_def)
  { assume "17 \<le> v"
    with v show "dealer_turn g = (Inr (), g)" by (simp add: dealer_turn_unfold [of g]) }
  { assume lt: "v < 17"
    with v show "dealer_turn g = dealer_turn (deal_to_dealer g)"
      by (simp add: dealer_turn_unfold [of g])
    { fix g' assume "dealer_turn g = (Inr (), g')"
      with v lt show "\<exists>c more. cards (dealer g') = cards (dealer g) @ Some c # more"
        by (rule dealer_turn_real_card) }
    { fix r g' assume "finish_round g = (Inr r, g')"
      with v lt show "(\<exists>pv. value (hand (player g')) = Inr pv \<and> 21 < pv \<and> r = ''loss'')
                 \<or> (\<exists>c more. cards (dealer g') = cards (dealer g) @ Some c # more)"
        by (rule finish_round_real_card) } }
next
  fix g' assume "dealer_turn g = (Inr (), g')"
  then show "\<exists>v. value (dealer g') = Inr v \<and> 17 \<le> v" by (rule dealer_turn_final)
next
  fix r g' assume "finish_round g = (Inr r, g')"
  then show "\<exists>pv. value (hand (player g')) = Inr pv
           \<and> (21 < pv \<and> r = ''loss'' \<or> (\<exists>dv. value (dealer g') = Inr dv \<and> 17 \<le> dv))"
    by (rule finish_round_settled)
qed

theorem C4_dealer_turn_witness:
  "should_hit (dealer (dealt_round 990 [Card TEN SPADES, Card NINE HEARTS]
              [Card TEN DIAMONDS, Card SIX CLUBS] [Card FIVE HEARTS])) = Inr True
   \<and> cards (dealer (snd (dealer_turn (dealt_round 990 [Card TEN SPADES, Card NINE HEARTS]
              [Card TEN DIAMONDS, Card SIX CLUBS] [Card FIVE HEARTS]))))
       = [Some (Card TEN DIAMONDS), Some (Card SIX CLUBS), Some (Card FIVE HEARTS)]
   \<and> dealer_turn (dealt_round 990 [Card TEN SPADES, Card NINE HEARTS]
              [Card TEN DIAMONDS, Card SEVEN CLUBS] [Card FIVE HEARTS])
       = (Inr (), dealt_round 990 [Card TEN SPADES, Card NINE HEARTS]
              [Card TEN DIAMONDS, Card SEVEN CLUBS] [Card FIVE HEARTS])"
proof -
  let ?g = "dealt_round 990 [Card TEN SPADES, Card NINE HEARTS]
              [Card TEN DIAMONDS, Card SIX CLUBS] [Card FIVE HEARTS]"
  let ?s = "dealt_round 990 [Card TEN SPADES, Card NINE HEARTS]
              [Card TEN DIAMONDS, Card SEVEN CLUBS] [Card FIVE HEARTS]"
  have v16: "value (dealer ?g) = Inr 16" by code_simp
  have v17: "value (dealer ?s) = Inr 17" by code_simp
  have after: "dealer_turn (deal_to_dealer ?g) = (Inr (), deal_to_dealer ?g)" by code_simp
  have drawn: "cards (dealer (deal_to_dealer ?g))
       = [Some (Card TEN DIAMONDS), Some (Card SIX CLUBS), Some (Card FIVE HEARTS)]"
    by code_simp
  from C4_dealer_turn [of ?g] v16
  have 1: "should_hit (dealer ?g) = Inr True"
    and 2: "dealer_turn ?g = dealer_turn (deal_to_dealer ?g)"
    by simp_all
  from C4_dealer_turn [of ?s] v17 have 3: "dealer_turn ?s = (Inr (), ?s)" by simp
  have 4: "cards (dealer (snd (dealer_turn ?g)))
       = [Some (Card TEN DIAMONDS), Some (Card SIX CLUBS), Some (Card FIVE HEARTS)]"
    unfolding 2 after using drawn by simp
  from 1 3 4 show ?thesis by blast
qed

text \<open>
  C4 as stated has the dealer hit soft 17. With the Ace of diamonds and the Six of clubs
  the dealer holds a soft 17: \<open>should_hit\<close> is false and the dealer's turn ends with the
  game as it was, no card drawn.
\<close>

theorem C4_soft_17_counterexample:
  "is_soft (dealer (dealt_round 990 [Card TEN SPADES, Card NINE HEARTS]
              [Card ACE DIAMONDS, Card SIX CLUBS] [Card FIVE HEARTS])) = Inr True
   \<and> value (dealer (dealt_round 990 [Card TEN SPADES, Card NINE HEARTS]
              [Card ACE DIAMONDS, Card SIX CLUBS] [Card FIVE HEARTS])) = Inr 17
   \<and> should_hit (dealer (dealt_round 990 [Card TEN SPADES, Card NINE HEARTS]
              [Card ACE DIAMONDS, Card SIX CLUBS] [Card FIVE HEARTS])) = Inr False
   \<and> dealer_turn (dealt_round 990 [Card TEN SPADES, Card NINE HEARTS]
              [Card ACE DIAMONDS, Card SIX CLUBS] [Card FIVE HEARTS])
       = (Inr (), dealt_round 990 [Card TEN SPADES, Card NINE HEARTS]
              [Card ACE DIAMONDS, Card SIX CLUBS] [Card FIVE HEARTS])"
  by code_simp

section \<open>Doubling down\<close>

lemma value_is_pair:
  assumes "value h = Inr v"
  obtains pr where "is_pair h = Inr pr" and "(is_pair h = Inr True) = pr"
proof -
  from assms obtain cs where "cards h = map Some cs" by (blast dest: value_Inr_Some)
  then have "is_pair h = Inr (same_rank_pair cs)" by (rule is_pair_first_card(1))
  then show thesis by (intro that [of "same_rank_pair cs"]) simp_all
qed

lemma player_turn_double:
  assumes "value (hand (player g)) = Inr v" and "v < 21"
    and "first_slot (dealer g) = Inr upcard"
    and "decide (strategy (player g)) (hand (player g)) upcard True
           (is_pair (hand (player g)) = Inr True) True = Inr DOUBLE_DOWN"
  shows "player_turn g =
           (Inr (), deal_to_player (g\<lparr>player := snd (place_bet (player g) (bet g))\<rparr>))"
proof -
  from assms(1) obtain pr where pr: "is_pair (hand (player g)) = Inr pr"
    and "(is_pair (hand (player g)) = Inr True) = pr"
    by (rule value_is_pair)
  with assms(4) have "decide (strategy (player g)) (hand (player g)) upcard True pr True
                      = Inr DOUBLE_DOWN"
    by simp
  with assms(1-3) pr have "player_step g =
          Break (deal_to_player (g\<lparr>player := snd (place_bet (player g) (bet g))\<rparr>))"
    by (simp add: player_step_def)
  then show ?thesis by (simp add: player_turn.simps [of g])
qed

lemma finish_round_payout:
  assumes "player_turn g = (Inr (), g1)" and "finish_round g = (Inr r, g')"
  shows "r \<in> {''win'', ''loss'', ''push''}
       \<and> bankroll (player g') = bankroll (player g1)
           + (if r = ''win'' then bet g1 * 2 else if r = ''push'' then bet g1 else 0)"
proof -
  from assms obtain pv where pv: "value (hand (player g1)) = Inr pv"
    by (auto simp: finish_round_def split: sum.splits)
  show ?thesis
  proof (cases "21 < pv")
    case True
    with assms pv show ?thesis by (auto simp: finish_round_def)
  next
    case False
    with assms pv obtain u g2 where dt: "dealer_turn g1 = (Inr u, g2)"
      and dw: "determine_winner g2 = (Inr r, g')"
      by (auto simp: finish_round_def split: prod.splits sum.splits)
    from dealer_turn_frame [of g1] dt have "player g2 = player g1" "bet g2 = bet g1"
      by simp_all
    with determine_winner_payout [OF dw] show ?thesis by simp
  qed
qed

text \<open>
  The \<open>DOUBLE_DOWN\<close> branch of the player's loop, run from any game state in which the
  strategy gives that answer: \<open>place_bet\<close> is called with the base bet and the flag it
  returns is dropped (the bankroll goes down by the bet if it covers the bet and stays as
  it is otherwise), the result of one \<open>deal\<close> is appended to the hand and the loop is
  left. Settlement then pays from the base bet alone: \<open>bet * 2\<close> for a win, \<open>bet\<close> for a
  push, nothing for a loss. So, with \<open>b0\<close> the bankroll before the round's first bet and
  the second stake placed, a doubled win ends at \<open>b0\<close> and a doubled push at \<open>b0 - bet\<close>.
\<close>

lemma double_down_branch:
  assumes "value (hand (player g)) = Inr v" and "v < 21"
    and "first_slot (dealer g) = Inr upcard"
    and "decide (strategy (player g)) (hand (player g)) upcard True
           (is_pair (hand (player g)) = Inr True) True = Inr DOUBLE_DOWN"
  shows "\<exists>g1. player_turn g = (Inr (), g1)
     \<and> bankroll (player g1) =
         (if bet g \<le> bankroll (player g) then bankroll (player g) - bet g
          else bankroll (player g))
     \<and> current_bet (player g1) =
         (if bet g \<le> bankroll (player g) then current_bet (player g) + bet g
          else current_bet (player g))
     \<and> cards (hand (player g1)) = cards (hand (player g)) @ [fst (deal (deck g))]
     \<and> deck g1 = snd (deal (deck g))
     \<and> (\<forall>r g'. finish_round g = (Inr r, g') \<longrightarrow>
           r \<in> {''win'', ''loss'', ''push''}
           \<and> bankroll (player g') = bankroll (player g1)
               + (if r = ''win'' then bet g * 2 else if r = ''push'' then bet g else 0))
     \<and> (\<forall>b0 g'. bankroll (player g) = b0 - bet g \<and> bet g \<le> bankroll (player g) \<longrightarrow>
           (finish_round g = (Inr ''win'', g') \<longrightarrow> bankroll (player g') = b0)
           \<and> (finish_round g = (Inr ''push'', g') \<longrightarrow> bankroll (player g') = b0 - bet g))"
proof -
  let ?g1 = "deal_to_player (g\<lparr>player := snd (place_bet (player g) (bet g))\<rparr>)"
  have pt: "player_turn g = (Inr (), ?g1)"
    using assms by (rule player_turn_double)
  have b: "bankroll (player ?g1) =
         (if bet g \<le> bankroll (player g) then bankroll (player g) - bet g
          else bankroll (player g))"
    and c: "current_bet (player ?g1) =
         (if bet g \<le> bankroll (player g) then current_bet (player g) + bet g
          else current_bet (player g))"
    and h: "cards (hand (player ?g1)) = cards (hand (player g)) @ [fst (deal (deck g))]"
    and d: "deck ?g1 = snd (deal (deck g))"
    and bt: "bet ?g1 = bet g"
    by (simp_all add: deal_to_player_frame place_bet_cases)
  have pay: "r \<in> {''win'', ''loss'', ''push''}
           \<and> bankroll (player g') = bankroll (player ?g1)
               + (if r = ''win'' then bet g * 2 else if r = ''push'' then bet g else 0)"
    if "finish_round g = (Inr r, g')" for r g'
    using finish_round_payout [OF pt that] by (simp only: bt)
  have net: "(finish_round g = (Inr ''win'', g') \<longrightarrow> bankroll (player g') = b0)
           \<and> (finish_round g = (Inr ''push'', g') \<longrightarrow> bankroll (player g') = b0 - bet g)"
    if "bankroll (player g) = b0 - bet g \<and> bet g \<le> bankroll (player g)" for b0 g'
    using that pay [of "''win''" g'] pay [of "''push''" g'] b by auto
  from pt b c h d pay net show ?thesis by blast
qed

lemma double_down_branch_rounds:
  "bankroll (player (snd (player_turn (dealt_round 990 [Card FIVE SPADES, Card SIX HEARTS]
      [Card TEN CLUBS, Card SEVEN DIAMONDS] [Card NINE SPADES])))) = 980
   \<and> cards (hand (player (snd (player_turn (dealt_round 990 [Card FIVE SPADES, Card SIX HEARTS]
      [Card TEN CLUBS, Card SEVEN DIAMONDS] [Card NINE SPADES])))))
       = [Some (Card FIVE SPADES), Some (Card SIX HEARTS), Some (Card NINE SPADES)]
   \<and> fst (finish_round (dealt_round 990 [Card FIVE SPADES, Card SIX HEARTS]
      [Card TEN CLUBS, Card SEVEN DIAMONDS] [Card NINE SPADES])) = Inr ''win''
   \<and> bankroll (player (snd (finish_round (dealt_round 990 [Card FIVE SPADES, Card SIX HEARTS]
      [Card TEN CLUBS, Card SEVEN DIAMONDS] [Card NINE SPADES])))) = 1000
   \<and> fst (finish_round (dealt_round 990 [Card FIVE SPADES, Card SIX HEARTS]
      [Card TEN CLUBS, Card QUEEN DIAMONDS] [Card NINE SPADES])) = Inr ''push''
   \<and> bankroll (player (snd (finish_round (dealt_round 990 [Card FIVE SPADES, Card SIX HEARTS]
      [Card TEN CLUBS, Card QUEEN DIAMONDS] [Card NINE SPADES])))) = 990
   \<and> bankroll (player (snd (player_turn (dealt_round 5 [Card FIVE SPADES, Card SIX HEARTS]
      [Card TEN CLUBS, Card SEVEN DIAMONDS] [Card NINE SPADES])))) = 5"
proof -
  let ?w = "dealt_round 990 [Card FIVE SPADES, Card SIX HEARTS]
      [Card TEN CLUBS, Card SEVEN DIAMONDS] [Card NINE SPADES]"
  let ?p = "dealt_round 990 [Card FIVE SPADES, Card SIX HEARTS]
      [Card TEN CLUBS, Card QUEEN DIAMONDS] [Card NINE SPADES]"
  let ?u = "dealt_round 5 [Card FIVE SPADES, Card SIX HEARTS]
      [Card TEN CLUBS, Card SEVEN DIAMONDS] [Card NINE SPADES]"
  have lt: "(11::int) < 21" by simp
  have vw: "value (hand (player ?w)) = Inr 11" by code_simp
  have vp: "value (hand (player ?p)) = Inr 11" by code_simp
  have vu: "value (hand (player ?u)) = Inr 11" by code_simp
  have uw: "first_slot (dealer ?w) = Inr (Some (Card TEN CLUBS))" by code_simp
  have up: "first_slot (dealer ?p) = Inr (Some (Card TEN CLUBS))" by code_simp
  have uu: "first_slot (dealer ?u) = Inr (Some (Card TEN CLUBS))" by code_simp
  have dw: "decide (strategy (player ?w)) (hand (player ?w)) (Some (Card TEN CLUBS)) True
              (is_pair (hand (player ?w)) = Inr True) True = Inr DOUBLE_DOWN"
    by code_simp
  have dp: "decide (strategy (player ?p)) (hand (player ?p)) (Some (Card TEN CLUBS)) True
              (is_pair (hand (player ?p)) = Inr True) True = Inr DOUBLE_DOWN"
    by code_simp
  have du: "decide (strategy (player ?u)) (hand (player ?u)) (Some (Card TEN CLUBS)) True
              (is_pair (hand (player ?u)) = Inr True) True = Inr DOUBLE_DOWN"
    by code_simp
  have bw: "bankroll (player ?w) = 990" and tw: "bet ?w = 10"
    and bp: "bankroll (player ?p) = 990" and tp: "bet ?p = 10"
    and bu: "bankroll (player ?u) = 5" and tu: "bet ?u = 10"
    and hw: "cards (hand (player ?w)) = [Some (Card FIVE SPADES), Some (Card SIX HEARTS)]"
    by (simp_all add: dealt_round_def Hand_def)
  have top: "fst (deal (deck ?w)) = Some (Card NINE SPADES)" by code_simp
  have rw: "fst (finish_round ?w) = Inr ''win''" by code_simp
  have rp: "fst (finish_round ?p) = Inr ''push''" by code_simp
  have fw: "finish_round ?w = (Inr ''win'', snd (finish_round ?w))"
    using rw by (simp add: prod_eq_iff)
  have fp: "finish_round ?p = (Inr ''push'', snd (finish_round ?p))"
    using rp by (simp add: prod_eq_iff)
  from double_down_branch [OF vw lt uw dw] obtain g1 where
    g1: "player_turn ?w = (Inr (), g1)"
    and b1: "bankroll (player g1) =
         (if bet ?w \<le> bankroll (player ?w) then bankroll (player ?w) - bet ?w
          else bankroll (player ?w))"
    and c1: "cards (hand (player g1)) = cards (hand (player ?w)) @ [fst (deal (deck ?w))]"
    and netw: "\<forall>b0 g'. bankroll (player ?w) = b0 - bet ?w \<and> bet ?w \<le> bankroll (player ?w) \<longrightarrow>
           (finish_round ?w = (Inr ''win'', g') \<longrightarrow> bankroll (player g') = b0)
           \<and> (finish_round ?w = (Inr ''push'', g') \<longrightarrow> bankroll (player g') = b0 - bet ?w)"
    by (elim exE conjE)
  from g1 b1 have 1: "bankroll (player (snd (player_turn ?w))) = 980"
    by (simp add: bw tw)
  from g1 c1 have 2: "cards (hand (player (snd (player_turn ?w))))
       = [Some (Card FIVE SPADES), Some (Card SIX HEARTS), Some (Card NINE SPADES)]"
    by (simp add: hw top)
  from netw [rule_format, of 1000 "snd (finish_round ?w)"] fw
  have 3: "bankroll (player (snd (finish_round ?w))) = 1000"
    by (simp add: bw tw)
  from double_down_branch [OF vp lt up dp] obtain g2 where
    netp: "\<forall>b0 g'. bankroll (player ?p) = b0 - bet ?p \<and> bet ?p \<le> bankroll (player ?p) \<longrightarrow>
           (finish_round ?p = (Inr ''win'', g') \<longrightarrow> bankroll (player g') = b0)
           \<and> (finish_round ?p = (Inr ''push'', g') \<longrightarrow> bankroll (player g') = b0 - bet ?p)"
    by (elim exE conjE)
  from netp [rule_format, of 1000 "snd (finish_round ?p)"] fp
  have 4: "bankroll (player (snd (finish_round ?p))) = 990"
    by (simp add: bp tp)
  from double_down_branch [OF vu lt uu du] obtain g3 where
    g3: "player_turn ?u = (Inr (), g3)"
    and b3: "bankroll (player g3) =
         (if bet ?u \<le> bankroll (player ?u) then bankroll (player ?u) - bet ?u
          else bankroll (player ?u))"
    by (elim exE conjE)
  from g3 b3 have 5: "bankroll (player (snd (player_turn ?u))) = 5"
    by (simp add: bu tu)
  from 1 2 rw 3 rp 4 5 show ?thesis by (intro conjI)
qed

text \<open>
  On a pool that has run out the branch takes the second stake and appends an empty slot
  instead of a card, and the reading of the hand's value that follows the loop raises.
\<close>

lemma double_down_empty_shoe:
  "bankroll (player (snd (player_turn (dealt_round_empty_shoe 990
      [Card FIVE SPADES, Card SIX HEARTS] [Card TEN CLUBS, Card SEVEN DIAMONDS])))) = 980
   \<and> cards (hand (player (snd (player_turn (dealt_round_empty_shoe 990
      [Card FIVE SPADES, Card SIX HEARTS] [Card TEN CLUBS, Card SEVEN DIAMONDS])))))
       = [Some (Card FIVE SPADES), Some (Card SIX HEARTS), None]
   \<and> fst (finish_round (dealt_round_empty_shoe 990
      [Card FIVE SPADES, Card SIX HEARTS] [Card TEN CLUBS, Card SEVEN DIAMONDS]))
       = Inl AttributeError"
  by code_simp

text \<open>
  C10, at a deal on which the strategy doubles. A game of a player with bankroll 1000 at
  bet 10, on one deck shuffled so that the player is dealt the Five of spades and the Six
  of hearts, the dealer the Ten of clubs and the Seven of diamonds, and the Nine of spades
  comes next: \<open>decide\<close> answers \<open>DOUBLE_DOWN\<close> on this hand, but \<open>play_auto\<close> raises
  \<open>TypeError\<close> out of \<open>start_round\<close> before its player's loop. Only the first bet is
  deducted (990 left), the hand keeps its two cards, the Nine of spades stays in the pool
  and nothing is settled, where the claim has the second stake deducted, one card drawn
  and the win credited \<open>bet * 2\<close>.
\<close>

theorem C10_play_auto_raises:
  "(case Game (Player 1000 BasicStrategy) 10 1 (stack_top double_down_top) of
      Inl e \<Rightarrow> False
    | Inr g \<Rightarrow>
        fst (play_auto g) = Inl TypeError
        \<and> cards (hand (player (snd (play_auto g))))
            = [Some (Card FIVE SPADES), Some (Card SIX HEARTS)]
        \<and> cards (dealer (snd (play_auto g)))
            = [Some (Card TEN CLUBS), Some (Card SEVEN DIAMONDS)]
        \<and> decide (strategy (player (snd (play_auto g)))) (hand (player (snd (play_auto g))))
              (Some (Card TEN CLUBS)) True False True = Inr DOUBLE_DOWN
        \<and> last (deck_cards (deck (snd (play_auto g)))) = Card NINE SPADES
        \<and> length (deck_cards (deck (snd (play_auto g)))) = 48
        \<and> bankroll (player g) = 1000
        \<and> bankroll (player (snd (play_auto g))) = 990)"
  by code_simp

section \<open>The blackjack payout\<close>

text \<open>
  Up to bets whose fivefold stays below \<open>2 ^ 53\<close> the floating-point product is exact and
  the payout is the bet times five halves, truncated towards zero; beyond, the rounding
  of the product shows.
\<close>

lemma bit_length_le: "bit_length n \<le> k \<longleftrightarrow> n < 2 ^ k"
proof (induction n arbitrary: k rule: bit_length.induct)
  case (1 n)
  show ?case
  proof (cases "n = 0")
    case True
    then show ?thesis by (simp add: bit_length.simps)
  next
    case False
    then have bl: "bit_length n = Suc (bit_length (n div 2))"
      by (simp add: bit_length.simps [of n])
    show ?thesis
    proof (cases k)
      case 0
      with False bl show ?thesis by simp
    next
      case (Suc j)
      from "1.IH" [OF False, of j] have "bit_length (n div 2) \<le> j \<longleftrightarrow> n div 2 < 2 ^ j" .
      also have "\<dots> \<longleftrightarrow> n < 2 ^ Suc j" by auto
      finally show ?thesis by (simp add: bl Suc)
    qed
  qed
qed

lemma round53_small: "a < 2 ^ 53 \<Longrightarrow> round53 a = a"
  by (simp add: round53_def bit_length_le)

lemma blackjack_payout_exact:
  assumes "\<bar>5 * b\<bar> < 2 ^ 53"
  shows "blackjack_payout b = Inr (if 0 \<le> b then (5 * b) div 2 else - ((5 * (- b)) div 2))"
proof -
  let ?n = "nat \<bar>b\<bar>"
  from assms have "int (5 * ?n) < 2 ^ 53" by (simp add: abs_mult)
  then have n5: "5 * ?n < 2 ^ 53" by (simp only: flip: of_nat_less_iff [where ?'a = int]) simp
  then have n: "?n < 2 ^ 53" by simp
  have r1: "round53 ?n = ?n" using n by (rule round53_small)
  have r2: "round53 (5 * ?n) = 5 * ?n" using n5 by (rule round53_small)
  have "bit_length ?n \<le> 53" using n by (simp only: bit_length_le)
  then have b1: "\<not> bit_length ?n > 1024" by simp
  have "bit_length (5 * ?n) \<le> 53" using n5 by (simp only: bit_length_le)
  then have b2: "\<not> bit_length (5 * ?n) > 1025" by simp
  have d: "int ((5 * ?n) div 2) = (5 * \<bar>b\<bar>) div 2"
    by (simp add: zdiv_int)
  have "blackjack_payout b = Inr (if 0 \<le> b then int ((5 * ?n) div 2) else - int ((5 * ?n) div 2))"
    using b1 b2 by (simp only: blackjack_payout_def Let_def r1 r2 if_False)
  also have "\<dots> = Inr (if 0 \<le> b then (5 * b) div 2 else - ((5 * (- b)) div 2))"
    unfolding d by (cases "0 \<le> b") simp_all
  finally show ?thesis .
qed

lemma blackjack_payout_at_bets:
  "blackjack_payout 10 = Inr 25 \<and> blackjack_payout 15 = Inr 37"
  using blackjack_payout_exact [of 10] blackjack_payout_exact [of 15] by simp

lemma blackjack_payout_rounded:
  "blackjack_payout 1801439850948199 = Inr 4503599627370498"
proof -
  have n: "nat \<bar>1801439850948199::int\<bar> = 1801439850948199" by simp
  have l1: "bit_length 1801439850948199 = 51" by (simp add: bit_length.simps)
  have r1: "round53 1801439850948199 = 1801439850948199"
    by (simp add: round53_def l1)
  have l2: "bit_length 9007199254740995 = 54" by (simp add: bit_length.simps)
  have r2: "round53 9007199254740995 = 9007199254740996"
    by (simp add: round53_def l2 Let_def)
  have l3: "bit_length 9007199254740996 = 54" by (simp add: bit_length.simps)
  show ?thesis
    by (simp add: blackjack_payout_def Let_def n r1 l1 r2 l3)
qed

section \<open>Starting a round\<close>

text \<open>
  \<open>start_round\<close> reaches \<open>self.dealer.hand.is_blackjack()\<close> on every call that gets past
  the bet, and that expression always raises.
\<close>

lemma call_is_blackjack_raises: "\<exists>e. call_is_blackjack h = Inl e"
  by (simp add: call_is_blackjack_def split: sum.splits)

lemma start_round_raises:
  assumes "bet g \<le> bankroll (player g)"
  shows "\<exists>e g'. start_round g = (Inl e, g')
           \<and> bankroll (player g') = bankroll (player g) - bet g"
proof -
  let ?p = "(player g)\<lparr>bankroll := bankroll (player g) - bet g,
                        current_bet := current_bet (player g) + bet g\<rparr>"
  let ?g6 = "(deal_to_dealer (deal_to_player (deal_to_dealer (deal_to_player
               (g\<lparr>player := clear_hands ?p, dealer := Hand []\<rparr>)))))\<lparr>round_active := True\<rparr>"
  obtain e where e: "call_is_blackjack (dealer ?g6) = Inl e"
    using call_is_blackjack_raises by blast
  have "start_round g = (Inl e, ?g6)"
    using assms e by (simp add: start_round_def place_bet_def Let_def)
  moreover have "bankroll (player ?g6) = bankroll (player g) - bet g"
    by (simp add: clear_hands_def deal_to_player_def deal_to_dealer_def split: prod.splits)
  ultimately show ?thesis by blast
qed

text \<open>
  \<open>play_auto\<close> answers \<open>"loss"\<close> whenever \<open>start_round\<close> returns \<open>False\<close>, and
  \<open>start_round\<close> returns at all only when the bankroll does not cover the bet, with the
  game unchanged.
\<close>

lemma play_auto_not_started:
  "start_round g = (Inr False, g') \<Longrightarrow> play_auto g = (Inr ''loss'', g')"
  by (simp add: play_auto_def)

lemma start_round_returns:
  "start_round g = (Inr b, g') \<Longrightarrow> bankroll (player g) < bet g \<and> \<not> b \<and> g' = g"
proof (cases "bankroll (player g) < bet g")
  case True
  assume "start_round g = (Inr b, g')"
  with True show ?thesis by (auto simp: start_round_def)
next
  case False
  assume r: "start_round g = (Inr b, g')"
  from False have "bet g \<le> bankroll (player g)" by simp
  from start_round_raises [OF this] r show ?thesis by auto
qed

text \<open>
  C1, at scenario A. A game of a player with bankroll 1000 at bet 10, on one deck
  shuffled so that the player is dealt the Ace of spades and the King of hearts and the
  dealer the Nine of diamonds and the Two of clubs: the player holds a natural blackjack,
  the dealer does not, and \<open>start_round\<close> raises \<open>TypeError\<close> with the bet deducted and
  nothing credited (990 left), where the claim has it return with 1015.
\<close>

theorem C1_scenario_A_raises:
  "(case Game (Player 1000 BasicStrategy) 10 1 (stack_top scenario_A_top) of
      Inl e \<Rightarrow> False
    | Inr g \<Rightarrow>
        fst (start_round g) = Inl TypeError
        \<and> cards (hand (player (snd (start_round g))))
            = [Some (Card ACE SPADES), Some (Card KING HEARTS)]
        \<and> cards (dealer (snd (start_round g)))
            = [Some (Card NINE DIAMONDS), Some (Card TWO CLUBS)]
        \<and> is_blackjack (hand (player (snd (start_round g)))) = Inr True
        \<and> is_blackjack (dealer (snd (start_round g))) = Inr False
        \<and> bankroll (player g) = 1000
        \<and> bankroll (player (snd (start_round g))) = 990)"
  by code_simp

text \<open>
  C9, at scenario A and at a deal of two natural blackjacks. In both rounds \<open>play_auto\<close>
  raises \<open>TypeError\<close> out of \<open>start_round\<close> with the bet deducted and nothing paid or
  refunded (990 left), where the claim has the blackjack paid, the push refunded and
  \<open>"loss"\<close> returned.
\<close>

theorem C9_play_auto_raises:
  "(case Game (Player 1000 BasicStrategy) 10 1 (stack_top scenario_A_top) of
      Inl e \<Rightarrow> False
    | Inr g \<Rightarrow>
        fst (play_auto g) = Inl TypeError
        \<and> is_blackjack (hand (player (snd (play_auto g)))) = Inr True
        \<and> is_blackjack (dealer (snd (play_auto g))) = Inr False
        \<and> bankroll (player g) = 1000
        \<and> bankroll (player (snd (play_auto g))) = 990)
   \<and> (case Game (Player 1000 BasicStrategy) 10 1 (stack_top both_blackjack_top) of
      Inl e \<Rightarrow> False
    | Inr g \<Rightarrow>
        fst (play_auto g) = Inl TypeError
        \<and> is_blackjack (hand (player (snd (play_auto g)))) = Inr True
        \<and> is_blackjack (dealer (snd (play_auto g))) = Inr True
        \<and> bankroll (player g) = 1000
        \<and> bankroll (player (snd (play_auto g))) = 990)"
  by code_simp

end
